theory Spec2Isabelle
  imports Main "HOL-Library.Word"
begin

unbundle bit_operations_syntax

section \<open>Machine types and faults\<close>

text \<open>
  The parser of \<^verbatim>\<open>g10/parse-packet.c\<close> is embedded function by function.  A \<^verbatim>\<open>byte\<close> is
  an 8-bit word.  \<^verbatim>\<open>unsigned long\<close> and \<^verbatim>\<open>unsigned\<close> are taken as 32-bit words (the ILP32
  targets the code was written for), \<^verbatim>\<open>unsigned short\<close> as a 16-bit word; subtraction on
  them wraps.  Diagnostic output (\<^verbatim>\<open>printf\<close>, \<^verbatim>\<open>log_error\<close>, \<^verbatim>\<open>log_debug\<close>) is not
  part of the model; the reads that only the listing mode performs are.

  A run of the C program can stop in ways that are no return value: the byte source fails
  under \<^verbatim>\<open>iobuf_get_noeof\<close>, an \<^verbatim>\<open>assert\<close> fails, \<^verbatim>\<open>BUG()\<close> is reached, a buffer is read
  past its end, or a \<^verbatim>\<open>NULL\<close> pointer is followed.  They are the \<open>Inl\<close> results of the model.
\<close>

type_synonym byte = "8 word"
type_synonym ushort = "16 word"
type_synonym ulong = "32 word"

datatype fault = Source_Failed | Assertion_Failed | Bug_Called | Out_Of_Bounds | Null_Pointer

definition bnd :: "fault + 'a \<Rightarrow> ('a \<Rightarrow> fault + 'b) \<Rightarrow> fault + 'b" where
  "bnd m f = (case m of Inl e \<Rightarrow> Inl e | Inr x \<Rightarrow> f x)"

section \<open>Constants of the missing headers\<close>

text \<open>
  \<^verbatim>\<open>packet.h\<close>, \<^verbatim>\<open>errors.h\<close> and \<^verbatim>\<open>cipher.h\<close> are not among the sources.  The macros the
  parser takes from them are parameters of the model: a record \<open>K\<close> of their values, and
  of the file's static variable \<^verbatim>\<open>list_mode\<close>.
\<close>

record macros =
  list_mode :: bool
  G10ERR_INVALID_PACKET :: int
  G10ERR_UNKNOWN_PACKET :: int
  G10ERR_WRITE_FILE :: int
  G10ERR_READ_FILE :: int
  PKT_PUBKEY_ENC :: int
  PKT_SIGNATURE :: int
  PKT_SYMKEY_ENC :: int
  PKT_ONEPASS_SIG :: int
  PKT_SECRET_CERT :: int
  PKT_PUBLIC_CERT :: int
  PKT_SECKEY_SUBCERT :: int
  PKT_COMPRESSED :: int
  PKT_ENCRYPTED :: int
  PKT_PLAINTEXT :: int
  PKT_RING_TRUST :: int
  PKT_USER_ID :: int
  PKT_PUBKEY_SUBCERT :: int
  PKT_OLD_COMMENT :: int
  PKT_COMMENT :: int
  is_ELGAMAL :: "byte \<Rightarrow> bool"
  is_RSA :: "byte \<Rightarrow> bool"
  PUBKEY_ALGO_DSA :: byte
  CIPHER_ALGO_BLOWFISH160 :: byte
  DIGEST_ALGO_RMD160 :: byte
  DIGEST_ALGO_MD5 :: byte

section \<open>The byte source\<close>

text \<open>
  Modelled from the spec: \<^verbatim>\<open>iobuf.h\<close> and its implementation are missing.  Section 4.1 and
  section 6 of the specification give the operations: \<^verbatim>\<open>get\<close> returns the next byte or
  end-of-stream, \<^verbatim>\<open>get_or_fail\<close> fails at end-of-stream, \<^verbatim>\<open>read\<close> returns the bytes
  actually read, \<^verbatim>\<open>tell\<close> the cumulative offset.  Block mode reads until the end of the
  stream.  In partial mode the body comes in chunks: at a chunk boundary a length byte in
  224..254 opens a chunk of \<open>2 ^ (b - 224)\<close> bytes, and any other length byte opens the
  final chunk, its length in the one-, two- or five-byte encoding of new-format packet
  lengths.  Both modes are scoped to one packet: the read that reports the end of the body
  leaves the mode.
\<close>

datatype bmode = Plain | Block | Partial nat | Final nat

record iobuf =
  data :: "byte list"
  nbytes :: nat
  bmode :: bmode

definition raw_get :: "iobuf \<Rightarrow> byte option \<times> iobuf" where
  "raw_get a = (case data a of
      [] \<Rightarrow> (None, a)
    | b # bs \<Rightarrow> (Some b, a\<lparr>data := bs, nbytes := Suc (nbytes a)\<rparr>))"

definition raw_take :: "nat \<Rightarrow> iobuf \<Rightarrow> byte list option \<times> iobuf" where
  "raw_take n a =
     (if n \<le> length (data a)
      then (Some (take n (data a)), a\<lparr>data := drop n (data a), nbytes := nbytes a + n\<rparr>)
      else (None, a\<lparr>data := [], nbytes := nbytes a + length (data a)\<rparr>))"

definition be_nat :: "byte list \<Rightarrow> nat" where
  "be_nat bs = foldl (\<lambda>v b. v * 256 + unat b) 0 bs"

definition final_len :: "byte \<Rightarrow> iobuf \<Rightarrow> nat option \<times> iobuf" where
  "final_len b a =
     (if b < 192 then (Some (unat b), a)
      else if b < 224 then
        (case raw_get a of
           (None, a') \<Rightarrow> (None, a')
         | (Some d, a') \<Rightarrow> (Some ((unat b - 192) * 256 + unat d + 192), a'))
      else
        (case raw_take 4 a of
           (None, a') \<Rightarrow> (None, a')
         | (Some ds, a') \<Rightarrow> (Some (be_nat ds), a')))"

definition chunk_byte :: "(nat \<Rightarrow> bmode) \<Rightarrow> nat \<Rightarrow> iobuf \<Rightarrow> byte option \<times> iobuf" where
  "chunk_byte mk k a = (case raw_get a of
      (None, a') \<Rightarrow> (None, a'\<lparr>bmode := Plain\<rparr>)
    | (Some b, a') \<Rightarrow> (Some b, a'\<lparr>bmode := mk (k - 1)\<rparr>))"

definition iobuf_get :: "iobuf \<Rightarrow> byte option \<times> iobuf" where
  "iobuf_get a = (case bmode a of
      Plain \<Rightarrow> raw_get a
    | Block \<Rightarrow> (case raw_get a of
                  (None, a') \<Rightarrow> (None, a'\<lparr>bmode := Plain\<rparr>)
                | (Some b, a') \<Rightarrow> (Some b, a'))
    | Final k \<Rightarrow> (if k = 0 then (None, a\<lparr>bmode := Plain\<rparr>) else chunk_byte Final k a)
    | Partial k \<Rightarrow>
        (if 0 < k then chunk_byte Partial k a
         else (case raw_get a of
                 (None, a') \<Rightarrow> (None, a'\<lparr>bmode := Plain\<rparr>)
               | (Some b, a') \<Rightarrow>
                   if 224 \<le> b \<and> b \<le> 254 then chunk_byte Partial (2 ^ (unat b - 224)) a'
                   else (case final_len b a' of
                           (None, a'') \<Rightarrow> (None, a''\<lparr>bmode := Plain\<rparr>)
                         | (Some n, a'') \<Rightarrow>
                             if n = 0 then (None, a''\<lparr>bmode := Plain\<rparr>)
                             else chunk_byte Final n a''))))"

definition iobuf_get_noeof :: "iobuf \<Rightarrow> fault + (byte \<times> iobuf)" where
  "iobuf_get_noeof a = (case iobuf_get a of
      (None, a') \<Rightarrow> Inl Source_Failed
    | (Some b, a') \<Rightarrow> Inr (b, a'))"

definition iobuf_tell :: "iobuf \<Rightarrow> nat" where
  "iobuf_tell a = nbytes a"

definition iobuf_in_block_mode :: "iobuf \<Rightarrow> bool" where
  "iobuf_in_block_mode a = (bmode a \<noteq> Plain)"

definition iobuf_set_block_mode :: "iobuf \<Rightarrow> int \<Rightarrow> iobuf" where
  "iobuf_set_block_mode a n = a\<lparr>bmode := (if n \<noteq> 0 then Block else Plain)\<rparr>"

definition iobuf_set_partial_block_mode :: "iobuf \<Rightarrow> ulong \<Rightarrow> iobuf" where
  "iobuf_set_partial_block_mode a len = a\<lparr>bmode := Partial (unat len)\<rparr>"

text \<open>
  \<^verbatim>\<open>iobuf_read(a, buf, n)\<close>: up to \<open>n\<close> bytes, fetched as \<^verbatim>\<open>iobuf_get\<close> does; \<open>-1\<close> when
  the body is already at its end.  The end is only consumed by the call that returns
  \<open>-1\<close>, so that a short read is followed by one.
\<close>

fun get_upto :: "nat \<Rightarrow> iobuf \<Rightarrow> byte list \<times> iobuf" where
  "get_upto 0 a = ([], a)"
| "get_upto (Suc n) a = (case iobuf_get a of
      (None, a') \<Rightarrow> ([], a)
    | (Some b, a') \<Rightarrow> (case get_upto n a' of (bs, a'') \<Rightarrow> (b # bs, a'')))"

definition iobuf_read :: "iobuf \<Rightarrow> nat \<Rightarrow> int \<times> byte list \<times> iobuf" where
  "iobuf_read a n = (case get_upto n a of
      (bs, a') \<Rightarrow>
        if bs = [] \<and> 0 < n then (- 1, [], snd (iobuf_get a'))
        else (int (length bs), bs, a'))"

text \<open>
  The output sink of the copy mode.  Modelled from the spec (section 6): \<^verbatim>\<open>write\<close> is ok or
  an error.  The sink keeps what was written; a sink with a bound refuses a write that
  does not fit.
\<close>

record sink =
  written :: "byte list"
  room :: "nat option"

definition iobuf_write :: "sink \<Rightarrow> byte list \<Rightarrow> int \<times> sink" where
  "iobuf_write out bs = (case room out of
      None \<Rightarrow> (0, out\<lparr>written := written out @ bs\<rparr>)
    | Some r \<Rightarrow>
        if length bs \<le> r
        then (0, out\<lparr>written := written out @ bs, room := Some (r - length bs)\<rparr>)
        else (- 1, out))"

section \<open>Reading helpers\<close>

text \<open>
  \<^verbatim>\<open>for( ; pktlen; pktlen-- ) iobuf_get(inp);\<close> and \<^verbatim>\<open>while( iobuf_get(inp) != -1 );\<close>,
  the two loops of \<^verbatim>\<open>skip_rest\<close>.  A byte that \<^verbatim>\<open>iobuf_get\<close> delivers is taken from the
  stream, which is why the second loop ends.
\<close>

lemma raw_get_Some_shorter:
  "raw_get a = (Some b, a') \<Longrightarrow> length (data a') < length (data a)"
  by (auto simp: raw_get_def split: list.splits)

lemma raw_get_None_same:
  "raw_get a = (None, a') \<Longrightarrow> a' = a"
  by (auto simp: raw_get_def split: list.splits)

lemma raw_take_le:
  "raw_take n a = (r, a') \<Longrightarrow> length (data a') \<le> length (data a)"
  by (auto simp: raw_take_def split: if_splits)

lemma chunk_byte_Some_shorter:
  "chunk_byte mk k a = (Some b, a') \<Longrightarrow> length (data a') < length (data a)"
  by (auto simp: chunk_byte_def split: prod.splits option.splits dest: raw_get_Some_shorter)

lemma final_len_le:
  "final_len b a = (r, a') \<Longrightarrow> length (data a') \<le> length (data a)"
  by (auto simp: final_len_def split: if_splits prod.splits option.splits
      dest: raw_get_Some_shorter raw_get_None_same raw_take_le)

lemma iobuf_get_Some_shorter:
  "iobuf_get a = (Some b, a') \<Longrightarrow> length (data a') < length (data a)"
  unfolding iobuf_get_def
  by (auto split: bmode.splits if_splits prod.splits option.splits
      dest!: raw_get_Some_shorter chunk_byte_Some_shorter final_len_le)

fun get_discard :: "nat \<Rightarrow> iobuf \<Rightarrow> iobuf" where
  "get_discard 0 a = a"
| "get_discard (Suc n) a = get_discard n (snd (iobuf_get a))"

function drain :: "iobuf \<Rightarrow> iobuf" where
  "drain a = (case iobuf_get a of
      (None, a') \<Rightarrow> a'
    | (Some b, a') \<Rightarrow> drain a')"
  by pat_completeness auto
termination
  by (relation "measure (\<lambda>a. length (data a))") (auto dest: iobuf_get_Some_shorter [OF sym])

declare drain.simps [simp del]

text \<open>\<^verbatim>\<open>for( ; pktlen; pktlen--, p++ ) *p = iobuf_get_noeof(inp);\<close>\<close>

fun get_n :: "nat \<Rightarrow> iobuf \<Rightarrow> fault + (byte list \<times> iobuf)" where
  "get_n 0 inp = Inr ([], inp)"
| "get_n (Suc k) inp =
     bnd (iobuf_get_noeof inp) (\<lambda>(b, inp).
     bnd (get_n k inp) (\<lambda>(bs, inp). Inr (b # bs, inp)))"

text \<open>\<^verbatim>\<open>for(i=0; i < N && pktlen; i++, pktlen-- ) x[i] = iobuf_get_noeof(inp);\<close>\<close>

fun get_bytes :: "nat \<Rightarrow> ulong \<Rightarrow> iobuf \<Rightarrow> fault + (byte list \<times> ulong \<times> iobuf)" where
  "get_bytes 0 pktlen inp = Inr ([], pktlen, inp)"
| "get_bytes (Suc k) pktlen inp =
     (if pktlen = 0 then Inr ([], pktlen, inp)
      else bnd (iobuf_get_noeof inp) (\<lambda>(b, inp).
           bnd (get_bytes k (pktlen - 1) inp) (\<lambda>(bs, pktlen, inp). Inr (b # bs, pktlen, inp))))"

text \<open>
  An array of the C program whose bytes may be indeterminate (a stack array, memory from
  \<^verbatim>\<open>m_alloc\<close>) is a list of optional bytes, \<open>None\<close> the indeterminate one.  \<open>store bs x\<close>
  writes \<open>bs\<close> to the first positions of \<open>x\<close>.
\<close>

definition store :: "byte list \<Rightarrow> byte option list \<Rightarrow> byte option list" where
  "store bs x = map Some bs @ drop (length bs) x"

definition read_16 :: "iobuf \<Rightarrow> fault + (ushort \<times> iobuf)" where
  "read_16 inp =
     bnd (iobuf_get_noeof inp) (\<lambda>(b0, inp).
     bnd (iobuf_get_noeof inp) (\<lambda>(b1, inp).
     Inr (push_bit 8 (ucast b0) OR ucast b1, inp)))"

definition read_32 :: "iobuf \<Rightarrow> fault + (ulong \<times> iobuf)" where
  "read_32 inp =
     bnd (iobuf_get_noeof inp) (\<lambda>(b0, inp).
     bnd (iobuf_get_noeof inp) (\<lambda>(b1, inp).
     bnd (iobuf_get_noeof inp) (\<lambda>(b2, inp).
     bnd (iobuf_get_noeof inp) (\<lambda>(b3, inp).
     Inr (push_bit 24 (ucast b0) OR push_bit 16 (ucast b1) OR push_bit 8 (ucast b2) OR ucast b3,
          inp)))))"

definition buffer_to_u32 :: "byte list \<Rightarrow> fault + ulong" where
  "buffer_to_u32 buffer = (case buffer of
      b0 # b1 # b2 # b3 # rest \<Rightarrow>
        Inr (push_bit 24 (ucast b0) OR push_bit 16 (ucast b1) OR push_bit 8 (ucast b2) OR ucast b3)
    | _ \<Rightarrow> Inl Out_Of_Bounds)"

text \<open>
  Modelled from the spec: the MPI reader is missing.  Section 4.2: it reads a 16-bit
  big-endian bit length \<open>nb\<close>, then \<open>\<lceil>nb/8\<rceil>\<close> bytes of value, and reports the bytes
  consumed, the two-byte prefix included; it fails if the prefix or the data is
  truncated.  The specification gives the incoming value of the counter no role.
\<close>

type_synonym MPI = "nat \<times> byte list"

definition mpi_read :: "iobuf \<Rightarrow> ulong \<Rightarrow> fault + (MPI \<times> ulong \<times> iobuf)" where
  "mpi_read inp n =
     bnd (iobuf_get_noeof inp) (\<lambda>(c1, inp).
     bnd (iobuf_get_noeof inp) (\<lambda>(c2, inp).
       let nb = unat c1 * 256 + unat c2; nbytes = (nb + 7) div 8
       in bnd (get_n nbytes inp) (\<lambda>(bs, inp). Inr ((nb, bs), of_nat (2 + nbytes), inp))))"

section \<open>Packet records\<close>

text \<open>
  The structures of \<^verbatim>\<open>packet.h\<close>, with the fields the parser assigns.  A structure from
  \<^verbatim>\<open>m_alloc_clear\<close> starts zeroed; in one from \<^verbatim>\<open>m_alloc\<close> a field is \<open>None\<close> until it is
  assigned.  A \<^verbatim>\<open>NULL\<close> pointer is \<open>None\<close>.  The borrowed \<^verbatim>\<open>buf\<close> of the plaintext,
  compressed and encrypted records is a flag: it is the input stream or \<^verbatim>\<open>NULL\<close>.
\<close>

record STRING2KEY =
  s2k_mode :: byte
  s2k_hash_algo :: byte
  s2k_salt :: "byte option list"
  s2k_count :: ulong

definition s2k_clear :: STRING2KEY where
  "s2k_clear = \<lparr>s2k_mode = 0, s2k_hash_algo = 0, s2k_salt = replicate 8 (Some 0), s2k_count = 0\<rparr>"

record PKT_symkey_enc =
  sk_version :: byte
  sk_cipher_algo :: byte
  sk_s2k :: STRING2KEY
  sk_seskeylen :: int
  sk_seskey :: "byte list"

datatype sig_mpis = No_mpis | Elg_ab MPI MPI | Dsa_rs MPI MPI | Rsa_integer MPI

record PKT_pubkey_enc =
  pe_version :: "byte option"
  pe_keyid :: "ulong option \<times> ulong option"
  pe_pubkey_algo :: "byte option"
  pe_d :: sig_mpis

record PKT_signature =
  sig_version :: byte
  sig_class :: byte
  sig_timestamp :: ulong
  sig_keyid :: "ulong \<times> ulong"
  sig_pubkey_algo :: byte
  sig_digest_algo :: byte
  hashed_data :: "byte list option"
  unhashed_data :: "byte list option"
  digest_start :: "byte \<times> byte"
  sig_d :: sig_mpis

definition signature_clear :: PKT_signature where
  "signature_clear = \<lparr>sig_version = 0, sig_class = 0, sig_timestamp = 0, sig_keyid = (0, 0),
     sig_pubkey_algo = 0, sig_digest_algo = 0, hashed_data = None, unhashed_data = None,
     digest_start = (0, 0), sig_d = No_mpis\<rparr>"

record PKT_onepass_sig =
  ops_sig_class :: byte
  ops_digest_algo :: byte
  ops_pubkey_algo :: byte
  ops_keyid :: "ulong \<times> ulong"
  ops_last :: byte

definition onepass_sig_clear :: PKT_onepass_sig where
  "onepass_sig_clear = \<lparr>ops_sig_class = 0, ops_digest_algo = 0, ops_pubkey_algo = 0,
     ops_keyid = (0, 0), ops_last = 0\<rparr>"

datatype pub_mpis = No_pub | Elg_pgy MPI MPI MPI | Dsa_pqgy MPI MPI MPI MPI | Rsa_ne MPI MPI

datatype sec_mpis = No_sec | Elg_x MPI | Dsa_x MPI | Rsa_dpqu MPI MPI MPI MPI

record PKT_public_cert =
  pc_timestamp :: ulong
  pc_valid_days :: ushort
  pc_hdrbytes :: nat
  pc_version :: byte
  pc_pubkey_algo :: byte
  pc_d :: pub_mpis

definition public_cert_clear :: PKT_public_cert where
  "public_cert_clear = \<lparr>pc_timestamp = 0, pc_valid_days = 0, pc_hdrbytes = 0, pc_version = 0,
     pc_pubkey_algo = 0, pc_d = No_pub\<rparr>"

record PKT_secret_cert =
  sc_timestamp :: ulong
  sc_valid_days :: ushort
  sc_hdrbytes :: nat
  sc_version :: byte
  sc_pubkey_algo :: byte
  is_protected :: bool
  protect_algo :: byte
  protect_s2k :: STRING2KEY
  protect_iv :: "byte option list"
  sc_d :: pub_mpis
  sc_x :: sec_mpis
  csum :: ushort

definition secret_cert_clear :: PKT_secret_cert where
  "secret_cert_clear = \<lparr>sc_timestamp = 0, sc_valid_days = 0, sc_hdrbytes = 0, sc_version = 0,
     sc_pubkey_algo = 0, is_protected = False, protect_algo = 0, protect_s2k = s2k_clear,
     protect_iv = replicate 8 (Some 0), sc_d = No_pub, sc_x = No_sec, csum = 0\<rparr>"

record PKT_user_id =
  uid_len :: ulong
  uid_name :: "byte list"

record PKT_comment =
  cmt_len :: ulong
  cmt_data :: "byte list"

record PKT_plaintext =
  pt_mode :: byte
  pt_namelen :: byte
  pt_name :: "byte list"
  pt_timestamp :: ulong
  pt_len :: ulong
  pt_buf :: bool

record PKT_compressed =
  zd_len :: ulong
  zd_algorithm :: byte
  zd_buf :: bool

record PKT_encrypted =
  ed_len :: ulong
  ed_buf :: bool

datatype pkt_union =
    Generic_NULL
  | Public_cert PKT_public_cert
  | Secret_cert PKT_secret_cert
  | Symkey_enc PKT_symkey_enc
  | Pubkey_enc PKT_pubkey_enc
  | Signature PKT_signature
  | Onepass_sig PKT_onepass_sig
  | User_id PKT_user_id
  | Comment PKT_comment
  | Plaintext PKT_plaintext
  | Compressed PKT_compressed
  | Encrypted PKT_encrypted

record PACKET =
  pkt_pkttype :: int
  pkt_pkt :: pkt_union

definition init_packet :: PACKET where
  "init_packet = \<lparr>pkt_pkttype = 0, pkt_pkt = Generic_NULL\<rparr>"

section \<open>Skipping and copying a body\<close>

definition skip_rest :: "iobuf \<Rightarrow> ulong \<Rightarrow> iobuf" where
  "skip_rest inp pktlen =
     (if iobuf_in_block_mode inp then drain inp else get_discard (unat pktlen) inp)"

definition skip_packet :: "macros \<Rightarrow> iobuf \<Rightarrow> int \<Rightarrow> ulong \<Rightarrow> iobuf" where
  "skip_packet K inp pkttype pktlen =
     (if list_mode K \<and> pkttype \<noteq> 0 then
        (if iobuf_in_block_mode inp then drain inp else get_discard (unat pktlen) inp)
      else skip_rest inp pktlen)"

lemma get_upto_length:
  "get_upto n a = (bs, a') \<Longrightarrow> length (data a') + length bs \<le> length (data a) \<and> length bs \<le> n"
proof (induction n arbitrary: a bs a')
  case 0
  then show ?case by simp
next
  case (Suc n)
  show ?case
  proof (cases "iobuf_get a")
    case (Pair r a1)
    show ?thesis
    proof (cases r)
      case None
      with Pair Suc.prems show ?thesis by simp
    next
      case (Some b)
      obtain cs a2 where g: "get_upto n a1 = (cs, a2)" by (cases "get_upto n a1")
      from Suc.IH [OF g] have "length (data a2) + length cs \<le> length (data a1) \<and> length cs \<le> n" .
      moreover from Pair Some have "length (data a1) < length (data a)"
        by (auto dest: iobuf_get_Some_shorter)
      moreover from Pair Some g Suc.prems have "bs = b # cs" "a' = a2" by auto
      ultimately show ?thesis by simp
    qed
  qed
qed

lemma iobuf_read_progress:
  assumes "iobuf_read a n = (r, bs, a')" and "r \<noteq> - 1" and "0 < n"
  shows "length (data a') < length (data a) \<and> 1 \<le> r \<and> r \<le> int n \<and> r = int (length bs)"
proof -
  obtain cs a1 where g: "get_upto n a = (cs, a1)" by (cases "get_upto n a")
  from assms g have "cs \<noteq> []" "bs = cs" "a' = a1" "r = int (length cs)"
    by (auto simp: iobuf_read_def split: if_splits)
  with get_upto_length [OF g] show ?thesis by (cases cs) auto
qed

text \<open>
  \<^verbatim>\<open>while( (n = iobuf_read( inp, buf, 100 )) != -1 ) if( iobuf_write(out, buf, n ) ) return
  G10ERR_WRITE_FILE;\<close>, the loop of the first two branches of \<^verbatim>\<open>copy_packet\<close>.
\<close>

function copy_to_eof :: "macros \<Rightarrow> iobuf \<Rightarrow> sink \<Rightarrow> int \<times> iobuf \<times> sink" where
  "copy_to_eof K inp out = (case iobuf_read inp 100 of
      (n, buf, inp') \<Rightarrow>
        if n = - 1 then (0, inp', out)
        else (case iobuf_write out buf of
                (w, out') \<Rightarrow>
                  if w \<noteq> 0 then (G10ERR_WRITE_FILE K, inp', out')
                  else copy_to_eof K inp' out'))"
  by pat_completeness auto
termination
  by (relation "measure (\<lambda>(K, inp, out). length (data inp))")
     (auto dest!: iobuf_read_progress [OF sym])

declare copy_to_eof.simps [simp del]

text \<open>The loop of the third branch: \<^verbatim>\<open>for( ; pktlen; pktlen -= n )\<close>.\<close>

function copy_counted :: "macros \<Rightarrow> iobuf \<Rightarrow> sink \<Rightarrow> ulong \<Rightarrow> int \<times> iobuf \<times> sink" where
  "copy_counted K inp out pktlen =
     (if pktlen = 0 then (0, inp, out)
      else (case iobuf_read inp (if 100 < pktlen then 100 else unat pktlen) of
              (n, buf, inp') \<Rightarrow>
                if n = - 1 then (G10ERR_READ_FILE K, inp', out)
                else (case iobuf_write out buf of
                        (w, out') \<Rightarrow>
                          if w \<noteq> 0 then (G10ERR_WRITE_FILE K, inp', out')
                          else copy_counted K inp' out' (pktlen - word_of_int n))))"
  by pat_completeness auto
termination
  by (relation "measure (\<lambda>(K, inp, out, pktlen). length (data inp))")
     (auto dest!: iobuf_read_progress [OF sym] simp: unat_gt_0)

declare copy_counted.simps [simp del]

definition copy_packet :: "macros \<Rightarrow> iobuf \<Rightarrow> sink \<Rightarrow> int \<Rightarrow> ulong \<Rightarrow> int \<times> iobuf \<times> sink" where
  "copy_packet K inp out pkttype pktlen =
     (if iobuf_in_block_mode inp then copy_to_eof K inp out
      else if pktlen = 0 \<and> pkttype = PKT_COMPRESSED K then copy_to_eof K inp out
      else copy_counted K inp out pktlen)"

section \<open>Signature subpackets\<close>

text \<open>
  \<^verbatim>\<open>parse_sig_subpkt\<close>.  The pointer \<^verbatim>\<open>buffer\<close> is the list of the bytes from its position on,
  and reading it past the end is a fault.  \<^verbatim>\<open>buflen\<close> is a natural number: it starts as a
  16-bit value and every subtraction from it follows a test that it is large enough.
  \<^verbatim>\<open>n\<close> is a \<^verbatim>\<open>size_t\<close>, 32 bits wide.  The two types the function returns a payload for
  have the numbers section 3 of the specification gives them.
\<close>

definition SIGSUBPKT_SIG_CREATED :: int where
  "SIGSUBPKT_SIG_CREATED = 2"

definition SIGSUBPKT_ISSUER :: int where
  "SIGSUBPKT_ISSUER = 16"

text \<open>
  The length field, after \<^verbatim>\<open>n = *buffer++; buflen--;\<close>.  \<open>None\<close> is the jump to
  \<^verbatim>\<open>too_short\<close>.  The result is the new \<^verbatim>\<open>n\<close>, \<^verbatim>\<open>buffer\<close> and \<^verbatim>\<open>buflen\<close>.
\<close>

definition subpkt_length ::
  "byte \<Rightarrow> byte list \<Rightarrow> nat \<Rightarrow> fault + (ulong \<times> byte list \<times> nat) option" where
  "subpkt_length b buffer buflen =
     (if b = 255 then
        (if buflen < 4 then Inr None
         else (case buffer of
                 b0 # b1 # b2 # b3 # rest \<Rightarrow>
                   Inr (Some (push_bit 24 (ucast b0) OR push_bit 16 (ucast b1)
                                OR push_bit 8 (ucast b2) OR ucast b3,
                              rest, buflen - 4))
               | _ \<Rightarrow> Inl Out_Of_Bounds))
      else if 192 \<le> b then
        (if buflen < 2 then Inr None
         else (case buffer of
                 [] \<Rightarrow> Inl Out_Of_Bounds
               | d # rest \<Rightarrow>
                   Inr (Some (push_bit 8 (ucast b - 192) + ucast d + 192, buffer, buflen - 1))))
      else Inr (Some (ucast b, buffer, buflen)))"

lemma subpkt_length_buflen:
  "subpkt_length b buffer buflen = Inr (Some (n, buffer', buflen')) \<Longrightarrow> buflen' \<le> buflen"
  by (auto simp: subpkt_length_def split: if_splits list.splits)

text \<open>
  The \<^verbatim>\<open>for(;;)\<close> loop.  \<open>Inr None\<close> is a \<^verbatim>\<open>return NULL\<close> (not found, or too short);
  \<open>Inr (Some (type, n, buffer, buflen))\<close> is the \<^verbatim>\<open>break\<close> with the variables as they are
  then.
\<close>

function subpkt_scan ::
  "int \<Rightarrow> byte list \<Rightarrow> nat \<Rightarrow> fault + (byte \<times> ulong \<times> byte list \<times> nat) option" where
  "subpkt_scan reqtype buffer buflen =
     (if buflen = 0 then Inr None
      else (case buffer of
              [] \<Rightarrow> Inl Out_Of_Bounds
            | b # buffer1 \<Rightarrow>
                (case subpkt_length b buffer1 (buflen - 1) of
                   Inl e \<Rightarrow> Inl e
                 | Inr None \<Rightarrow> Inr None
                 | Inr (Some (n, buffer2, buflen2)) \<Rightarrow>
                     if buflen2 < unat n then Inr None
                     else (case buffer2 of
                             [] \<Rightarrow> Inl Out_Of_Bounds
                           | t # rest \<Rightarrow>
                               if reqtype < 0 then
                                 subpkt_scan reqtype (drop (unat n) buffer2) (buflen2 - unat n)
                               else if uint (t AND 0x7f) = reqtype then
                                 Inr (Some (t AND 0x7f, n, buffer2, buflen2))
                               else
                                 subpkt_scan reqtype (drop (unat n) buffer2) (buflen2 - unat n)))))"
  by pat_completeness auto
termination
  by (relation "measure (\<lambda>(reqtype, buffer, buflen). buflen)")
     (auto dest!: subpkt_length_buflen)

declare subpkt_scan.simps [simp del]

text \<open>
  The result is the returned pointer and the value written to \<^verbatim>\<open>*ret_n\<close>, if one is
  written.
\<close>

definition parse_sig_subpkt ::
  "byte list option \<Rightarrow> int \<Rightarrow> fault + (byte list option \<times> ulong option)" where
  "parse_sig_subpkt buffer reqtype = (case buffer of
      None \<Rightarrow> Inr (None, None)
    | Some buf \<Rightarrow>
        (case buf of
           b0 # b1 # rest \<Rightarrow>
             (case subpkt_scan reqtype rest (unat b0 * 256 + unat b1) of
                Inl e \<Rightarrow> Inl e
              | Inr None \<Rightarrow> Inr (None, None)
              | Inr (Some (type, n, buffer, buflen)) \<Rightarrow>
                  let buffer = drop 1 buffer; n = n - 1
                  in if buflen < unat n then Inr (None, None)
                     else if uint type = SIGSUBPKT_SIG_CREATED then
                       (if n < 4 then Inr (None, Some n) else Inr (Some buffer, Some n))
                     else if uint type = SIGSUBPKT_ISSUER then
                       (if n < 8 then Inr (None, Some n) else Inr (Some buffer, Some n))
                     else Inl Bug_Called)
         | _ \<Rightarrow> Inl Out_Of_Bounds))"

section \<open>Body parsers\<close>

text \<open>The label \<^verbatim>\<open>leave:\<close> of the body parsers: \<^verbatim>\<open>skip_rest(inp, pktlen); return rc;\<close>\<close>

definition leave :: "iobuf \<Rightarrow> ulong \<Rightarrow> int \<Rightarrow> 'p \<Rightarrow> fault + (int \<times> iobuf \<times> 'p)" where
  "leave inp pktlen rc p = Inr (rc, skip_rest inp pktlen, p)"

subsection \<open>\<^verbatim>\<open>parse_symkeyenc\<close>\<close>

text \<open>
  The part of \<^verbatim>\<open>parse_symkeyenc\<close> between the last guard and the \<^verbatim>\<open>assert\<close>: the record is
  allocated zeroed and filled, the salt, the count and the session key are read.  The
  result carries the counter \<^verbatim>\<open>pktlen\<close> as the \<^verbatim>\<open>assert\<close> finds it.  \<^verbatim>\<open>minlen\<close> and
  \<^verbatim>\<open>seskeylen\<close> are of type \<^verbatim>\<open>int\<close>; the comparison \<^verbatim>\<open>minlen > pktlen\<close> and the difference
  \<^verbatim>\<open>pktlen - minlen\<close> are computed in \<^verbatim>\<open>unsigned long\<close>.
\<close>

definition symkeyenc_fields ::
  "iobuf \<Rightarrow> ulong \<Rightarrow> byte \<Rightarrow> byte \<Rightarrow> byte \<Rightarrow> byte \<Rightarrow> int
     \<Rightarrow> fault + (PKT_symkey_enc \<times> ulong \<times> iobuf)" where
  "symkeyenc_fields inp pktlen version cipher_algo s2kmode hash_algo seskeylen =
     bnd (if s2kmode = 1 \<or> s2kmode = 4 then get_bytes 8 pktlen inp else Inr ([], pktlen, inp))
       (\<lambda>(salt, pktlen, inp).
     bnd (if s2kmode = 4
          then bnd (read_32 inp) (\<lambda>(count, inp). Inr (count, pktlen - 4, inp))
          else Inr (0, pktlen, inp))
       (\<lambda>(count, pktlen, inp).
     bnd (get_bytes (nat seskeylen) pktlen inp)
       (\<lambda>(seskey, pktlen, inp).
     Inr (\<lparr>sk_version = version, sk_cipher_algo = cipher_algo,
           sk_s2k = \<lparr>s2k_mode = s2kmode, s2k_hash_algo = hash_algo,
                     s2k_salt = store salt (replicate 8 (Some 0)), s2k_count = count\<rparr>,
           sk_seskeylen = seskeylen,
           sk_seskey = seskey @ replicate (nat seskeylen - length seskey) 0\<rparr>,
          pktlen, inp))))"

definition parse_symkeyenc ::
  "iobuf \<Rightarrow> int \<Rightarrow> ulong \<Rightarrow> PACKET \<Rightarrow> fault + (int \<times> iobuf \<times> PACKET)" where
  "parse_symkeyenc inp pkttype pktlen packet =
     (if pktlen < 4 then leave inp pktlen 0 packet
      else
        bnd (iobuf_get_noeof inp) (\<lambda>(version, inp).
        let pktlen = pktlen - 1 in
        if version \<noteq> 4 then leave inp pktlen 0 packet
        else if 200 < pktlen then leave inp pktlen 0 packet
        else
          bnd (iobuf_get_noeof inp) (\<lambda>(cipher_algo, inp).
          bnd (iobuf_get_noeof inp) (\<lambda>(s2kmode, inp).
          bnd (iobuf_get_noeof inp) (\<lambda>(hash_algo, inp).
          let pktlen = pktlen - 3 in
          if s2kmode \<noteq> 0 \<and> s2kmode \<noteq> 1 \<and> s2kmode \<noteq> 4 then leave inp pktlen 0 packet
          else
            let minlen = (if s2kmode = 0 then 0 else if s2kmode = 1 then 8 else (12 :: int)) in
            if pktlen < word_of_int minlen then leave inp pktlen 0 packet
            else
              bnd (symkeyenc_fields inp pktlen version cipher_algo s2kmode hash_algo
                     (sint (pktlen - word_of_int minlen)))
                (\<lambda>(k, pktlen, inp).
              if pktlen \<noteq> 0 then Inl Assertion_Failed
              else leave inp pktlen 0 (packet\<lparr>pkt_pkt := Symkey_enc k\<rparr>)))))))"

subsection \<open>\<^verbatim>\<open>parse_pubkeyenc\<close>\<close>

text \<open>\<^verbatim>\<open>n = pktlen; x = mpi_read(inp, &n, 0 ); pktlen -=n;\<close>\<close>

definition read_mpi :: "iobuf \<Rightarrow> ulong \<Rightarrow> fault + (MPI \<times> ulong \<times> iobuf)" where
  "read_mpi inp pktlen = bnd (mpi_read inp pktlen) (\<lambda>(x, n, inp). Inr (x, pktlen - n, inp))"

definition parse_pubkeyenc ::
  "macros \<Rightarrow> iobuf \<Rightarrow> int \<Rightarrow> ulong \<Rightarrow> PACKET \<Rightarrow> fault + (int \<times> iobuf \<times> PACKET)" where
  "parse_pubkeyenc K inp pkttype pktlen packet =
     (let k = \<lparr>pe_version = None, pe_keyid = (None, None), pe_pubkey_algo = None, pe_d = No_mpis\<rparr>
      in
      if pktlen < 12 then leave inp pktlen 0 (packet\<lparr>pkt_pkt := Pubkey_enc k\<rparr>)
      else
        bnd (iobuf_get_noeof inp) (\<lambda>(version, inp).
        let pktlen = pktlen - 1; k = k\<lparr>pe_version := Some version\<rparr> in
        if version \<noteq> 2 \<and> version \<noteq> 3 then leave inp pktlen 0 (packet\<lparr>pkt_pkt := Pubkey_enc k\<rparr>)
        else
          bnd (read_32 inp) (\<lambda>(keyid0, inp).
          bnd (read_32 inp) (\<lambda>(keyid1, inp).
          bnd (iobuf_get_noeof inp) (\<lambda>(algo, inp).
          let pktlen = pktlen - 4 - 4 - 1;
              k = k\<lparr>pe_keyid := (Some keyid0, Some keyid1), pe_pubkey_algo := Some algo\<rparr> in
          if is_ELGAMAL K algo then
            bnd (read_mpi inp pktlen) (\<lambda>(a, pktlen, inp).
            bnd (read_mpi inp pktlen) (\<lambda>(b, pktlen, inp).
            leave inp pktlen 0 (packet\<lparr>pkt_pkt := Pubkey_enc (k\<lparr>pe_d := Elg_ab a b\<rparr>)\<rparr>)))
          else if is_RSA K algo then
            bnd (read_mpi inp pktlen) (\<lambda>(x, pktlen, inp).
            leave inp pktlen 0 (packet\<lparr>pkt_pkt := Pubkey_enc (k\<lparr>pe_d := Rsa_integer x\<rparr>)\<rparr>))
          else leave inp pktlen 0 (packet\<lparr>pkt_pkt := Pubkey_enc k\<rparr>))))))"

subsection \<open>\<^verbatim>\<open>parse_signature\<close>\<close>

text \<open>
  One subpacket area of a version 4 signature (the code has the block twice, for
  \<^verbatim>\<open>hashed_data\<close> and for \<^verbatim>\<open>unhashed_data\<close>): \<^verbatim>\<open>n = read_16(inp); pktlen -= 2;\<close>, the bound
  10000, and for \<open>n \<noteq> 0\<close> a buffer of \<open>n + 2\<close> bytes whose first two are assigned
  \<^verbatim>\<open>n << 8\<close> and \<^verbatim>\<open>n\<close>, each cut to a byte, and whose rest \<^verbatim>\<open>iobuf_read\<close> fills.  The result is
  the \<^verbatim>\<open>rc\<close> of a jump to \<^verbatim>\<open>leave\<close> if there is one, the buffer if one was allocated (after a
  short read: as far as it was filled), \<^verbatim>\<open>pktlen\<close> and the stream.
\<close>

definition sig_area ::
  "macros \<Rightarrow> iobuf \<Rightarrow> ulong \<Rightarrow> fault + (int option \<times> byte list option \<times> ulong \<times> iobuf)" where
  "sig_area K inp pktlen =
     bnd (read_16 inp) (\<lambda>(n16, inp).
     let n = (ucast n16 :: ulong); pktlen = pktlen - 2 in
     if 10000 < n then Inr (Some (G10ERR_INVALID_PACKET K), None, pktlen, inp)
     else if n \<noteq> 0 then
       (case iobuf_read inp (unat n) of
          (r, bs, inp) \<Rightarrow>
            let buf = ucast (push_bit 8 n) # ucast n # bs in
            if r \<noteq> uint n then Inr (Some (- 1), Some buf, pktlen, inp)
            else Inr (None, Some buf, pktlen - n, inp))
     else Inr (None, None, pktlen, inp))"

text \<open>Lines 663 to 681: the fixed fields up to the digest algorithm.\<close>

definition sig_fields ::
  "iobuf \<Rightarrow> ulong \<Rightarrow> bool \<Rightarrow> PKT_signature \<Rightarrow> fault + (ulong \<times> iobuf \<times> PKT_signature)" where
  "sig_fields inp pktlen is_v4 sig =
     bnd (if \<not> is_v4
          then bnd (iobuf_get_noeof inp) (\<lambda>(md5_len, inp). Inr (pktlen - 1, inp))
          else Inr (pktlen, inp))
       (\<lambda>(pktlen, inp).
     bnd (iobuf_get_noeof inp) (\<lambda>(cls, inp).
     let pktlen = pktlen - 1; sig = sig\<lparr>sig_class := cls\<rparr> in
     bnd (if \<not> is_v4
          then bnd (read_32 inp) (\<lambda>(ts, inp).
               bnd (read_32 inp) (\<lambda>(k0, inp).
               bnd (read_32 inp) (\<lambda>(k1, inp).
               Inr (pktlen - 4 - 4 - 4, inp, sig\<lparr>sig_timestamp := ts, sig_keyid := (k0, k1)\<rparr>))))
          else Inr (pktlen, inp, sig))
       (\<lambda>(pktlen, inp, sig).
     bnd (iobuf_get_noeof inp) (\<lambda>(palgo, inp).
     bnd (iobuf_get_noeof inp) (\<lambda>(dalgo, inp).
     Inr (pktlen - 1 - 1, inp, sig\<lparr>sig_pubkey_algo := palgo, sig_digest_algo := dalgo\<rparr>))))))"

text \<open>Lines 682 to 717: the two subpacket areas of a version 4 signature.\<close>

definition sig_subpackets ::
  "macros \<Rightarrow> iobuf \<Rightarrow> ulong \<Rightarrow> PKT_signature
     \<Rightarrow> fault + (int option \<times> ulong \<times> iobuf \<times> PKT_signature)" where
  "sig_subpackets K inp pktlen sig =
     bnd (sig_area K inp pktlen) (\<lambda>(rc, buf, pktlen, inp).
     let sig = (case buf of None \<Rightarrow> sig | Some b \<Rightarrow> sig\<lparr>hashed_data := Some b\<rparr>) in
     case rc of
       Some e \<Rightarrow> Inr (Some e, pktlen, inp, sig)
     | None \<Rightarrow>
         bnd (sig_area K inp pktlen) (\<lambda>(rc, buf, pktlen, inp).
         let sig = (case buf of None \<Rightarrow> sig | Some b \<Rightarrow> sig\<lparr>unhashed_data := Some b\<rparr>) in
         Inr (rc, pktlen, inp, sig)))"

text \<open>
  Lines 728 to 757: creation time and issuer from the subpackets, and in listing mode the
  two listing calls, whose request type is negative.
\<close>

definition sig_extract :: "macros \<Rightarrow> PKT_signature \<Rightarrow> fault + PKT_signature" where
  "sig_extract K sig =
     bnd (parse_sig_subpkt (hashed_data sig) SIGSUBPKT_SIG_CREATED) (\<lambda>(p, n).
     bnd (case p of None \<Rightarrow> Inr sig
          | Some b \<Rightarrow> bnd (buffer_to_u32 b) (\<lambda>ts. Inr (sig\<lparr>sig_timestamp := ts\<rparr>)))
       (\<lambda>sig.
     bnd (parse_sig_subpkt (unhashed_data sig) SIGSUBPKT_ISSUER) (\<lambda>(p, n).
     bnd (case p of None \<Rightarrow> Inr sig
          | Some b \<Rightarrow> bnd (buffer_to_u32 b) (\<lambda>k0.
                      bnd (buffer_to_u32 (drop 4 b)) (\<lambda>k1. Inr (sig\<lparr>sig_keyid := (k0, k1)\<rparr>))))
       (\<lambda>sig.
     if list_mode K then
       bnd (parse_sig_subpkt (hashed_data sig) (- 2)) (\<lambda>r.
       bnd (parse_sig_subpkt (unhashed_data sig) (- 1)) (\<lambda>r. Inr sig))
     else Inr sig))))"

text \<open>Lines 758 to 794: the MPIs of the signature.\<close>

definition sig_read_mpis ::
  "macros \<Rightarrow> iobuf \<Rightarrow> ulong \<Rightarrow> PKT_signature \<Rightarrow> fault + (ulong \<times> iobuf \<times> PKT_signature)" where
  "sig_read_mpis K inp pktlen sig =
     (if is_ELGAMAL K (sig_pubkey_algo sig) then
        bnd (read_mpi inp pktlen) (\<lambda>(a, pktlen, inp).
        bnd (read_mpi inp pktlen) (\<lambda>(b, pktlen, inp).
        Inr (pktlen, inp, sig\<lparr>sig_d := Elg_ab a b\<rparr>)))
      else if sig_pubkey_algo sig = PUBKEY_ALGO_DSA K then
        bnd (read_mpi inp pktlen) (\<lambda>(r, pktlen, inp).
        bnd (read_mpi inp pktlen) (\<lambda>(s, pktlen, inp).
        Inr (pktlen, inp, sig\<lparr>sig_d := Dsa_rs r s\<rparr>)))
      else if is_RSA K (sig_pubkey_algo sig) then
        bnd (read_mpi inp pktlen) (\<lambda>(x, pktlen, inp).
        Inr (pktlen, inp, sig\<lparr>sig_d := Rsa_integer x\<rparr>))
      else Inr (pktlen, inp, sig))"

definition parse_signature ::
  "macros \<Rightarrow> iobuf \<Rightarrow> int \<Rightarrow> ulong \<Rightarrow> PKT_signature
     \<Rightarrow> fault + (int \<times> iobuf \<times> PKT_signature)" where
  "parse_signature K inp pkttype pktlen sig =
     (if pktlen < 16 then leave inp pktlen 0 sig
      else
        bnd (iobuf_get_noeof inp) (\<lambda>(version, inp).
        let pktlen = pktlen - 1; sig = sig\<lparr>sig_version := version\<rparr>; is_v4 = (version = 4) in
        if \<not> is_v4 \<and> version \<noteq> 2 \<and> version \<noteq> 3 then leave inp pktlen 0 sig
        else
          bnd (sig_fields inp pktlen is_v4 sig) (\<lambda>(pktlen, inp, sig).
          bnd (if is_v4 then sig_subpackets K inp pktlen sig else Inr (None, pktlen, inp, sig))
            (\<lambda>(rc, pktlen, inp, sig).
          case rc of
            Some e \<Rightarrow> leave inp pktlen e sig
          | None \<Rightarrow>
              if pktlen < 5 then leave inp pktlen (G10ERR_INVALID_PACKET K) sig
              else
                bnd (iobuf_get_noeof inp) (\<lambda>(d0, inp).
                bnd (iobuf_get_noeof inp) (\<lambda>(d1, inp).
                let pktlen = pktlen - 1 - 1; sig = sig\<lparr>digest_start := (d0, d1)\<rparr> in
                bnd (if is_v4 then sig_extract K sig else Inr sig) (\<lambda>sig.
                bnd (sig_read_mpis K inp pktlen sig) (\<lambda>(pktlen, inp, sig).
                leave inp pktlen 0 sig))))))))"

subsection \<open>\<^verbatim>\<open>parse_onepass_sig\<close>\<close>

definition parse_onepass_sig ::
  "iobuf \<Rightarrow> int \<Rightarrow> ulong \<Rightarrow> PKT_onepass_sig \<Rightarrow> fault + (int \<times> iobuf \<times> PKT_onepass_sig)" where
  "parse_onepass_sig inp pkttype pktlen ops =
     (if pktlen < 13 then leave inp pktlen 0 ops
      else
        bnd (iobuf_get_noeof inp) (\<lambda>(version, inp).
        let pktlen = pktlen - 1 in
        if version \<noteq> 3 then leave inp pktlen 0 ops
        else
          bnd (iobuf_get_noeof inp) (\<lambda>(cls, inp).
          bnd (iobuf_get_noeof inp) (\<lambda>(dalgo, inp).
          bnd (iobuf_get_noeof inp) (\<lambda>(palgo, inp).
          bnd (read_32 inp) (\<lambda>(k0, inp).
          bnd (read_32 inp) (\<lambda>(k1, inp).
          bnd (iobuf_get_noeof inp) (\<lambda>(lst, inp).
          leave inp (pktlen - 1 - 1 - 1 - 4 - 4 - 1) 0
            (ops\<lparr>ops_sig_class := cls, ops_digest_algo := dalgo, ops_pubkey_algo := palgo,
                 ops_keyid := (k0, k1), ops_last := lst\<rparr>)))))))))"

subsection \<open>\<^verbatim>\<open>parse_certificate\<close>\<close>

text \<open>
  The certificate record hangs on the packet: \<^verbatim>\<open>pkt->pkt.public_cert\<close> and
  \<^verbatim>\<open>pkt->pkt.secret_cert\<close> are what \<^verbatim>\<open>parse\<close> allocated before the call.
\<close>

definition upd_public ::
  "(PKT_public_cert \<Rightarrow> PKT_public_cert) \<Rightarrow> PACKET \<Rightarrow> fault + PACKET" where
  "upd_public f pkt = (case pkt_pkt pkt of
      Public_cert c \<Rightarrow> Inr (pkt\<lparr>pkt_pkt := Public_cert (f c)\<rparr>)
    | _ \<Rightarrow> Inl Null_Pointer)"

definition upd_secret ::
  "(PKT_secret_cert \<Rightarrow> PKT_secret_cert) \<Rightarrow> PACKET \<Rightarrow> fault + PACKET" where
  "upd_secret f pkt = (case pkt_pkt pkt of
      Secret_cert c \<Rightarrow> Inr (pkt\<lparr>pkt_pkt := Secret_cert (f c)\<rparr>)
    | _ \<Rightarrow> Inl Null_Pointer)"

definition the_secret :: "PACKET \<Rightarrow> fault + PKT_secret_cert" where
  "the_secret pkt = (case pkt_pkt pkt of
      Secret_cert c \<Rightarrow> Inr c
    | _ \<Rightarrow> Inl Null_Pointer)"

text \<open>
  The protection block of an ElGamal secret key, lines 938 to 1022; the block of a DSA key,
  lines 1074 to 1154, is the same text but for the hash of the fabricated S2K, which is the
  argument \<open>legacy_hash\<close>.  The result is the \<^verbatim>\<open>rc\<close> of a jump to \<^verbatim>\<open>leave\<close>, if there is one,
  and the counter, the stream and the record.  \<^verbatim>\<open>temp\<close> is an array on the stack.
\<close>

definition cert_protect ::
  "macros \<Rightarrow> iobuf \<Rightarrow> ulong \<Rightarrow> (byte \<Rightarrow> byte) \<Rightarrow> PKT_secret_cert
     \<Rightarrow> fault + (int option \<times> ulong \<times> iobuf \<times> PKT_secret_cert)" where
  "cert_protect K inp pktlen legacy_hash cert =
     bnd (iobuf_get_noeof inp) (\<lambda>(algo, inp).
     let pktlen = pktlen - 1; cert = cert\<lparr>protect_algo := algo\<rparr>; temp = replicate 8 None in
     if algo \<noteq> 0 then
       (let cert = cert\<lparr>is_protected := True,
                         protect_s2k := (protect_s2k cert)\<lparr>s2k_count := 0\<rparr>\<rparr> in
        bnd (if algo = 255 then
               (if pktlen < 3 then Inr (Some (G10ERR_INVALID_PACKET K), pktlen, inp, cert, temp)
                else
                  bnd (iobuf_get_noeof inp) (\<lambda>(algo2, inp).
                  bnd (iobuf_get_noeof inp) (\<lambda>(mode, inp).
                  bnd (iobuf_get_noeof inp) (\<lambda>(hash_algo, inp).
                  let pktlen = pktlen - 1 - 1 - 1;
                      cert = cert\<lparr>protect_algo := algo2,
                               protect_s2k := (protect_s2k cert)\<lparr>s2k_mode := mode,
                                                 s2k_hash_algo := hash_algo\<rparr>\<rparr> in
                  bnd (if mode = 1 \<or> mode = 4 then
                         bnd (get_bytes 8 pktlen inp) (\<lambda>(bs, pktlen, inp).
                         let temp = store bs temp in
                         Inr (pktlen, inp,
                              cert\<lparr>protect_s2k := (protect_s2k cert)\<lparr>s2k_salt := temp\<rparr>\<rparr>, temp))
                       else Inr (pktlen, inp, cert, temp))
                    (\<lambda>(pktlen, inp, cert, temp).
                  if mode \<noteq> 0 \<and> mode \<noteq> 1 \<and> mode \<noteq> 4
                  then Inr (Some (G10ERR_INVALID_PACKET K), pktlen, inp, cert, temp)
                  else if mode = 4 then
                    (if pktlen < 4
                     then Inr (Some (G10ERR_INVALID_PACKET K), pktlen, inp, cert, temp)
                     else bnd (read_32 inp) (\<lambda>(count, inp).
                          Inr (None, pktlen - 4, inp,
                               cert\<lparr>protect_s2k := (protect_s2k cert)\<lparr>s2k_count := count\<rparr>\<rparr>,
                               temp)))
                  else Inr (None, pktlen, inp, cert, temp))))))
             else
               Inr (None, pktlen, inp,
                    cert\<lparr>protect_s2k := (protect_s2k cert)\<lparr>s2k_mode := 0,
                                             s2k_hash_algo := legacy_hash algo\<rparr>\<rparr>,
                    temp))
          (\<lambda>(rc, pktlen, inp, cert, temp).
        case rc of
          Some e \<Rightarrow> Inr (Some e, pktlen, inp, cert)
        | None \<Rightarrow>
            if pktlen < 8 then Inr (Some (G10ERR_INVALID_PACKET K), pktlen, inp, cert)
            else
              bnd (get_bytes 8 pktlen inp) (\<lambda>(bs, pktlen, inp).
              Inr (None, pktlen, inp, cert\<lparr>protect_iv := store bs temp\<rparr>))))
     else Inr (None, pktlen, inp, cert\<lparr>is_protected := False\<rparr>))"

text \<open>The protection block of an RSA secret key, lines 1195 to 1212.\<close>

definition cert_protect_rsa ::
  "macros \<Rightarrow> iobuf \<Rightarrow> ulong \<Rightarrow> PKT_secret_cert \<Rightarrow> fault + (ulong \<times> iobuf \<times> PKT_secret_cert)" where
  "cert_protect_rsa K inp pktlen cert =
     bnd (iobuf_get_noeof inp) (\<lambda>(algo, inp).
     let pktlen = pktlen - 1; cert = cert\<lparr>protect_algo := algo\<rparr>; temp = replicate 8 None in
     if algo \<noteq> 0 then
       bnd (get_bytes 8 pktlen inp) (\<lambda>(bs, pktlen, inp).
       let cert = cert\<lparr>is_protected := True\<rparr>; temp = store bs temp in
       if algo = CIPHER_ALGO_BLOWFISH160 K
       then Inr (pktlen, inp, cert\<lparr>protect_iv := temp\<rparr>)
       else Inr (pktlen, inp, cert))
     else Inr (pktlen, inp, cert\<lparr>is_protected := False\<rparr>))"

text \<open>Lines 912 to 1042, the ElGamal branch.\<close>

definition cert_elg ::
  "macros \<Rightarrow> iobuf \<Rightarrow> int \<Rightarrow> ulong \<Rightarrow> PACKET \<Rightarrow> fault + (int \<times> iobuf \<times> PACKET)" where
  "cert_elg K inp pkttype pktlen pkt =
     bnd (read_mpi inp pktlen) (\<lambda>(elg_p, pktlen, inp).
     bnd (read_mpi inp pktlen) (\<lambda>(elg_g, pktlen, inp).
     bnd (read_mpi inp pktlen) (\<lambda>(elg_y, pktlen, inp).
     if pkttype = PKT_PUBLIC_CERT K \<or> pkttype = PKT_PUBKEY_SUBCERT K then
       bnd (upd_public (\<lambda>c. c\<lparr>pc_d := Elg_pgy elg_p elg_g elg_y\<rparr>) pkt) (\<lambda>pkt.
       leave inp pktlen 0 pkt)
     else
       bnd (the_secret pkt) (\<lambda>cert.
       bnd (cert_protect K inp pktlen
              (\<lambda>algo. if algo = CIPHER_ALGO_BLOWFISH160 K
                       then DIGEST_ALGO_RMD160 K else DIGEST_ALGO_MD5 K)
              (cert\<lparr>sc_d := Elg_pgy elg_p elg_g elg_y\<rparr>))
         (\<lambda>(rc, pktlen, inp, cert).
       case rc of
         Some e \<Rightarrow> leave inp pktlen e (pkt\<lparr>pkt_pkt := Secret_cert cert\<rparr>)
       | None \<Rightarrow>
           bnd (read_mpi inp pktlen) (\<lambda>(x, pktlen, inp).
           bnd (read_16 inp) (\<lambda>(cs, inp).
           leave inp (pktlen - 2) 0
             (pkt\<lparr>pkt_pkt := Secret_cert (cert\<lparr>sc_x := Elg_x x, csum := cs\<rparr>)\<rparr>))))))))"

text \<open>Lines 1043 to 1172, the DSA branch.\<close>

definition cert_dsa ::
  "macros \<Rightarrow> iobuf \<Rightarrow> int \<Rightarrow> ulong \<Rightarrow> PACKET \<Rightarrow> fault + (int \<times> iobuf \<times> PACKET)" where
  "cert_dsa K inp pkttype pktlen pkt =
     bnd (read_mpi inp pktlen) (\<lambda>(dsa_p, pktlen, inp).
     bnd (read_mpi inp pktlen) (\<lambda>(dsa_q, pktlen, inp).
     bnd (read_mpi inp pktlen) (\<lambda>(dsa_g, pktlen, inp).
     bnd (read_mpi inp pktlen) (\<lambda>(dsa_y, pktlen, inp).
     if pkttype = PKT_PUBLIC_CERT K \<or> pkttype = PKT_PUBKEY_SUBCERT K then
       bnd (upd_public (\<lambda>c. c\<lparr>pc_d := Dsa_pqgy dsa_p dsa_q dsa_g dsa_y\<rparr>) pkt) (\<lambda>pkt.
       leave inp pktlen 0 pkt)
     else
       bnd (the_secret pkt) (\<lambda>cert.
       bnd (cert_protect K inp pktlen (\<lambda>algo. DIGEST_ALGO_MD5 K)
              (cert\<lparr>sc_d := Dsa_pqgy dsa_p dsa_q dsa_g dsa_y\<rparr>))
         (\<lambda>(rc, pktlen, inp, cert).
       case rc of
         Some e \<Rightarrow> leave inp pktlen e (pkt\<lparr>pkt_pkt := Secret_cert cert\<rparr>)
       | None \<Rightarrow>
           bnd (read_mpi inp pktlen) (\<lambda>(x, pktlen, inp).
           bnd (read_16 inp) (\<lambda>(cs, inp).
           leave inp (pktlen - 2) 0
             (pkt\<lparr>pkt_pkt := Secret_cert (cert\<lparr>sc_x := Dsa_x x, csum := cs\<rparr>)\<rparr>)))))))))"

text \<open>Lines 1173 to 1231, the RSA branch.\<close>

definition cert_rsa ::
  "macros \<Rightarrow> iobuf \<Rightarrow> int \<Rightarrow> ulong \<Rightarrow> PACKET \<Rightarrow> fault + (int \<times> iobuf \<times> PACKET)" where
  "cert_rsa K inp pkttype pktlen pkt =
     bnd (read_mpi inp pktlen) (\<lambda>(rsa_pub_mod, pktlen, inp).
     bnd (read_mpi inp pktlen) (\<lambda>(rsa_pub_exp, pktlen, inp).
     if pkttype = PKT_PUBLIC_CERT K \<or> pkttype = PKT_PUBKEY_SUBCERT K then
       bnd (upd_public (\<lambda>c. c\<lparr>pc_d := Rsa_ne rsa_pub_mod rsa_pub_exp\<rparr>) pkt) (\<lambda>pkt.
       leave inp pktlen 0 pkt)
     else
       bnd (the_secret pkt) (\<lambda>cert.
       bnd (cert_protect_rsa K inp pktlen (cert\<lparr>sc_d := Rsa_ne rsa_pub_mod rsa_pub_exp\<rparr>))
         (\<lambda>(pktlen, inp, cert).
       bnd (read_mpi inp pktlen) (\<lambda>(d, pktlen, inp).
       bnd (read_mpi inp pktlen) (\<lambda>(p, pktlen, inp).
       bnd (read_mpi inp pktlen) (\<lambda>(q, pktlen, inp).
       bnd (read_mpi inp pktlen) (\<lambda>(u, pktlen, inp).
       bnd (read_16 inp) (\<lambda>(cs, inp).
       leave inp (pktlen - 2) 0
         (pkt\<lparr>pkt_pkt := Secret_cert (cert\<lparr>sc_x := Rsa_dpqu d p q u, csum := cs\<rparr>)\<rparr>))))))))))"

text \<open>Lines 897 to 910: the fields common to all algorithms.\<close>

definition cert_header ::
  "macros \<Rightarrow> int \<Rightarrow> ulong \<Rightarrow> ushort \<Rightarrow> nat \<Rightarrow> byte \<Rightarrow> byte \<Rightarrow> PACKET \<Rightarrow> fault + PACKET" where
  "cert_header K pkttype timestamp valid_period hdrlen version algorithm pkt =
     (if pkttype = PKT_SECRET_CERT K \<or> pkttype = PKT_SECKEY_SUBCERT K then
        upd_secret (\<lambda>c. c\<lparr>sc_timestamp := timestamp, sc_valid_days := valid_period,
                           sc_hdrbytes := hdrlen, sc_version := version,
                           sc_pubkey_algo := algorithm\<rparr>) pkt
      else
        upd_public (\<lambda>c. c\<lparr>pc_timestamp := timestamp, pc_valid_days := valid_period,
                           pc_hdrbytes := hdrlen, pc_version := version,
                           pc_pubkey_algo := algorithm\<rparr>) pkt)"

definition parse_certificate ::
  "macros \<Rightarrow> iobuf \<Rightarrow> int \<Rightarrow> ulong \<Rightarrow> byte list \<Rightarrow> nat \<Rightarrow> PACKET
     \<Rightarrow> fault + (int \<times> iobuf \<times> PACKET)" where
  "parse_certificate K inp pkttype pktlen hdr hdrlen pkt =
     bnd (iobuf_get_noeof inp) (\<lambda>(version, inp).
     let pktlen = pktlen - 1 in
     if pkttype = PKT_PUBKEY_SUBCERT K \<and> version = 0x23 then
       (if list_mode K
        then bnd (get_n (unat pktlen) inp) (\<lambda>(bs, inp). Inr (0, skip_rest inp 0, pkt))
        else Inr (0, skip_rest inp pktlen, pkt))
     else if version \<noteq> 4 \<and> version \<noteq> 2 \<and> version \<noteq> 3 then leave inp pktlen 0 pkt
     else if pktlen < 11 then leave inp pktlen 0 pkt
     else
       bnd (read_32 inp) (\<lambda>(timestamp, inp).
       let pktlen = pktlen - 4 in
       bnd (if version = 4 then Inr (0, pktlen, inp)
            else bnd (read_16 inp) (\<lambda>(v, inp). Inr (v, pktlen - 2, inp)))
         (\<lambda>(valid_period, pktlen, inp).
       bnd (iobuf_get_noeof inp) (\<lambda>(algorithm, inp).
       let pktlen = pktlen - 1 in
       bnd (cert_header K pkttype timestamp valid_period hdrlen version algorithm pkt) (\<lambda>pkt.
       if is_ELGAMAL K algorithm then cert_elg K inp pkttype pktlen pkt
       else if algorithm = PUBKEY_ALGO_DSA K then cert_dsa K inp pkttype pktlen pkt
       else if is_RSA K algorithm then cert_rsa K inp pkttype pktlen pkt
       else leave inp pktlen 0 pkt)))))"

subsection \<open>The small body parsers\<close>

definition parse_user_id ::
  "iobuf \<Rightarrow> int \<Rightarrow> ulong \<Rightarrow> PACKET \<Rightarrow> fault + (int \<times> iobuf \<times> PACKET)" where
  "parse_user_id inp pkttype pktlen packet =
     bnd (get_n (unat pktlen) inp) (\<lambda>(bs, inp).
     Inr (0, inp, packet\<lparr>pkt_pkt := User_id \<lparr>uid_len = pktlen, uid_name = bs\<rparr>\<rparr>))"

definition parse_comment ::
  "iobuf \<Rightarrow> int \<Rightarrow> ulong \<Rightarrow> PACKET \<Rightarrow> fault + (int \<times> iobuf \<times> PACKET)" where
  "parse_comment inp pkttype pktlen packet =
     bnd (get_n (unat pktlen) inp) (\<lambda>(bs, inp).
     Inr (0, inp, packet\<lparr>pkt_pkt := Comment \<lparr>cmt_len = pktlen, cmt_data = bs\<rparr>\<rparr>))"

definition parse_trust :: "iobuf \<Rightarrow> int \<Rightarrow> ulong \<Rightarrow> fault + iobuf" where
  "parse_trust inp pkttype pktlen = bnd (iobuf_get_noeof inp) (\<lambda>(c, inp). Inr inp)"

text \<open>
  The two loops of \<^verbatim>\<open>parse_plaintext\<close> that read the name:
  \<^verbatim>\<open>for( i=0; pktlen > 4 && i < namelen; pktlen--, i++ )\<close> with \<^verbatim>\<open>iobuf_get_noeof\<close>, and
  \<^verbatim>\<open>for( i=0; i < namelen; i++ )\<close> with \<^verbatim>\<open>iobuf_get\<close> and a \<^verbatim>\<open>break\<close> at the end of the
  stream.  The name of the record is the bytes that were written to it.
\<close>

fun get_name :: "nat \<Rightarrow> ulong \<Rightarrow> iobuf \<Rightarrow> fault + (byte list \<times> ulong \<times> iobuf)" where
  "get_name 0 pktlen inp = Inr ([], pktlen, inp)"
| "get_name (Suc k) pktlen inp =
     (if 4 < pktlen then
        bnd (iobuf_get_noeof inp) (\<lambda>(b, inp).
        bnd (get_name k (pktlen - 1) inp) (\<lambda>(bs, pktlen, inp). Inr (b # bs, pktlen, inp)))
      else Inr ([], pktlen, inp))"

fun get_name_eof :: "nat \<Rightarrow> iobuf \<Rightarrow> byte list \<times> iobuf" where
  "get_name_eof 0 inp = ([], inp)"
| "get_name_eof (Suc k) inp = (case iobuf_get inp of
      (None, inp) \<Rightarrow> ([], inp)
    | (Some c, inp) \<Rightarrow> (case get_name_eof k inp of (bs, inp) \<Rightarrow> (c # bs, inp)))"

definition parse_plaintext ::
  "iobuf \<Rightarrow> int \<Rightarrow> ulong \<Rightarrow> PACKET \<Rightarrow> fault + (int \<times> iobuf \<times> PACKET)" where
  "parse_plaintext inp pkttype pktlen pkt =
     (if pktlen \<noteq> 0 \<and> pktlen < 6 then Inr (0, inp, pkt)
      else
        bnd (iobuf_get_noeof inp) (\<lambda>(mode, inp).
        let pktlen = (if pktlen \<noteq> 0 then pktlen - 1 else pktlen) in
        bnd (iobuf_get_noeof inp) (\<lambda>(namelen, inp).
        let pktlen = (if pktlen \<noteq> 0 then pktlen - 1 else pktlen) in
        bnd (if pktlen \<noteq> 0 then get_name (unat namelen) pktlen inp
             else (case get_name_eof (unat namelen) inp of (bs, inp) \<Rightarrow> Inr (bs, pktlen, inp)))
          (\<lambda>(name, pktlen, inp).
        bnd (read_32 inp) (\<lambda>(timestamp, inp).
        let pktlen = (if pktlen \<noteq> 0 then pktlen - 4 else pktlen) in
        Inr (0, inp,
             pkt\<lparr>pkt_pkt := Plaintext \<lparr>pt_mode = mode, pt_namelen = namelen, pt_name = name,
                    pt_timestamp = timestamp, pt_len = pktlen, pt_buf = True\<rparr>\<rparr>))))))"

definition parse_compressed ::
  "iobuf \<Rightarrow> int \<Rightarrow> ulong \<Rightarrow> PACKET \<Rightarrow> fault + (int \<times> iobuf \<times> PACKET)" where
  "parse_compressed inp pkttype pktlen pkt =
     bnd (iobuf_get_noeof inp) (\<lambda>(algorithm, inp).
     Inr (0, inp,
          pkt\<lparr>pkt_pkt := Compressed \<lparr>zd_len = 0, zd_algorithm = algorithm, zd_buf = True\<rparr>\<rparr>))"

definition parse_encrypted ::
  "iobuf \<Rightarrow> int \<Rightarrow> ulong \<Rightarrow> PACKET \<Rightarrow> fault + (int \<times> iobuf \<times> PACKET)" where
  "parse_encrypted inp pkttype pktlen pkt =
     (if pktlen \<noteq> 0 \<and> pktlen < 10
      then Inr (0, skip_rest inp pktlen,
                pkt\<lparr>pkt_pkt := Encrypted \<lparr>ed_len = pktlen, ed_buf = False\<rparr>\<rparr>)
      else Inr (0, inp, pkt\<lparr>pkt_pkt := Encrypted \<lparr>ed_len = pktlen, ed_buf = True\<rparr>\<rparr>))"

section \<open>The header decoder and the dispatcher\<close>

text \<open>
  \<^verbatim>\<open>parse\<close>, lines 204 to 266, is the header decoder.  It ends in a \<^verbatim>\<open>return\<close> of the
  function, or with the packet type, the length and the header bytes \<^verbatim>\<open>hdr[0..hdrlen-1]\<close>.
\<close>

datatype header = Return int | Header int ulong "byte list"

text \<open>\<^verbatim>\<open>for( ; lenbytes; lenbytes-- ) { pktlen <<= 8; pktlen |= hdr[hdrlen++] = iobuf_get_noeof(inp); }\<close>\<close>

fun read_length ::
  "nat \<Rightarrow> ulong \<Rightarrow> byte list \<Rightarrow> iobuf \<Rightarrow> fault + (ulong \<times> byte list \<times> iobuf)" where
  "read_length 0 pktlen hdr inp = Inr (pktlen, hdr, inp)"
| "read_length (Suc k) pktlen hdr inp =
     bnd (iobuf_get_noeof inp) (\<lambda>(b, inp).
     read_length k (push_bit 8 pktlen OR ucast b) (hdr @ [b]) inp)"

definition parse_header :: "macros \<Rightarrow> iobuf \<Rightarrow> fault + (header \<times> iobuf)" where
  "parse_header K inp = (case iobuf_get inp of
      (None, inp) \<Rightarrow> Inr (Return (- 1), inp)
    | (Some ctb, inp) \<Rightarrow>
        if ctb AND 0x80 = 0 then Inr (Return (G10ERR_INVALID_PACKET K), inp)
        else if ctb AND 0x40 \<noteq> 0 then
          (let pkttype = uint (ctb AND 0x3f) in
           case iobuf_get inp of
             (None, inp) \<Rightarrow> Inr (Return (G10ERR_INVALID_PACKET K), inp)
           | (Some c, inp) \<Rightarrow>
               if c < 192 then Inr (Header pkttype (ucast c) [ctb, c], inp)
               else if c < 224 then
                 (case iobuf_get inp of
                    (None, inp) \<Rightarrow> Inr (Return (G10ERR_INVALID_PACKET K), inp)
                  | (Some d, inp) \<Rightarrow>
                      Inr (Header pkttype ((ucast c - 192) * 256 + (ucast d + 192)) [ctb, c, d],
                           inp))
               else if c < 255 then
                 bnd (iobuf_get_noeof inp) (\<lambda>(b1, inp).
                 bnd (iobuf_get_noeof inp) (\<lambda>(b2, inp).
                 bnd (iobuf_get_noeof inp) (\<lambda>(b3, inp).
                 case iobuf_get inp of
                   (None, inp) \<Rightarrow> Inr (Return (G10ERR_INVALID_PACKET K), inp)
                 | (Some b4, inp) \<Rightarrow>
                     Inr (Header pkttype
                            (push_bit 24 (ucast b1) OR push_bit 16 (ucast b2)
                               OR push_bit 8 (ucast b3) OR ucast b4)
                            [ctb, c, b1, b2, b3, b4],
                          inp))))
               else
                 (let pktlen = 0 in
                  Inr (Header pkttype 0 [ctb, c], iobuf_set_partial_block_mode inp pktlen)))
        else
          (let pkttype = uint (drop_bit 2 ctb AND 0xf);
               lenbytes = (if ctb AND 3 = 3 then 0 else 2 ^ unat (ctb AND 3)) in
           if lenbytes = 0 then
             Inr (Header pkttype 0 [ctb],
                  if pkttype \<noteq> PKT_COMPRESSED K then iobuf_set_block_mode inp 1 else inp)
           else
             bnd (read_length lenbytes 0 [ctb] inp) (\<lambda>(pktlen, hdr, inp).
             Inr (Header pkttype pktlen hdr, inp))))"

text \<open>The \<^verbatim>\<open>switch( pkttype )\<close> of \<^verbatim>\<open>parse\<close>, lines 285 to 336, with its default \<^verbatim>\<open>rc\<close>.\<close>

definition parse_body ::
  "macros \<Rightarrow> iobuf \<Rightarrow> int \<Rightarrow> ulong \<Rightarrow> byte list \<Rightarrow> PACKET
     \<Rightarrow> fault + (int \<times> iobuf \<times> PACKET)" where
  "parse_body K inp pkttype pktlen hdr pkt =
     (let pkt = pkt\<lparr>pkt_pkttype := pkttype\<rparr>; rc = G10ERR_UNKNOWN_PACKET K in
      if pkttype = PKT_PUBLIC_CERT K \<or> pkttype = PKT_PUBKEY_SUBCERT K then
        parse_certificate K inp pkttype pktlen hdr (length hdr)
          (pkt\<lparr>pkt_pkt := Public_cert public_cert_clear\<rparr>)
      else if pkttype = PKT_SECRET_CERT K \<or> pkttype = PKT_SECKEY_SUBCERT K then
        parse_certificate K inp pkttype pktlen hdr (length hdr)
          (pkt\<lparr>pkt_pkt := Secret_cert secret_cert_clear\<rparr>)
      else if pkttype = PKT_SYMKEY_ENC K then parse_symkeyenc inp pkttype pktlen pkt
      else if pkttype = PKT_PUBKEY_ENC K then parse_pubkeyenc K inp pkttype pktlen pkt
      else if pkttype = PKT_SIGNATURE K then
        bnd (parse_signature K inp pkttype pktlen signature_clear) (\<lambda>(rc, inp, sig).
        Inr (rc, inp, pkt\<lparr>pkt_pkt := Signature sig\<rparr>))
      else if pkttype = PKT_ONEPASS_SIG K then
        bnd (parse_onepass_sig inp pkttype pktlen onepass_sig_clear) (\<lambda>(rc, inp, ops).
        Inr (rc, inp, pkt\<lparr>pkt_pkt := Onepass_sig ops\<rparr>))
      else if pkttype = PKT_USER_ID K then parse_user_id inp pkttype pktlen pkt
      else if pkttype = PKT_OLD_COMMENT K \<or> pkttype = PKT_COMMENT K then
        parse_comment inp pkttype pktlen pkt
      else if pkttype = PKT_RING_TRUST K then
        bnd (parse_trust inp pkttype pktlen) (\<lambda>inp. Inr (rc, inp, pkt))
      else if pkttype = PKT_PLAINTEXT K then parse_plaintext inp pkttype pktlen pkt
      else if pkttype = PKT_COMPRESSED K then parse_compressed inp pkttype pktlen pkt
      else if pkttype = PKT_ENCRYPTED K then parse_encrypted inp pkttype pktlen pkt
      else Inr (rc, skip_packet K inp pkttype pktlen, pkt))"

text \<open>
  \<^verbatim>\<open>parse\<close>.  The result is \<^verbatim>\<open>rc\<close>, \<^verbatim>\<open>*skip\<close>, the stream, the packet, the value written to
  \<^verbatim>\<open>*retpos\<close> if \<^verbatim>\<open>retpos\<close> is not \<^verbatim>\<open>NULL\<close>, and the sink.  The test \<^verbatim>\<open>out && pkttype\<close> is the
  case distinction on the sink, which is only looked at for a nonzero type.
\<close>

definition parse ::
  "macros \<Rightarrow> iobuf \<Rightarrow> PACKET \<Rightarrow> int \<Rightarrow> bool \<Rightarrow> sink option \<Rightarrow> bool
     \<Rightarrow> fault + (int \<times> bool \<times> iobuf \<times> PACKET \<times> nat option \<times> sink option)" where
  "parse K inp pkt reqtype retpos out do_skip =
     (if pkt_pkt pkt \<noteq> Generic_NULL then Inl Assertion_Failed
      else
        let pos = (if retpos then Some (iobuf_tell inp) else None) in
        bnd (parse_header K inp) (\<lambda>(h, inp).
        case h of
          Return rc \<Rightarrow> Inr (rc, False, inp, pkt, pos, out)
        | Header pkttype pktlen hdr \<Rightarrow>
            (case (if pkttype \<noteq> 0 then out else None) of
               Some sink \<Rightarrow>
                 (case iobuf_write sink hdr of
                    (w, sink) \<Rightarrow>
                      if w = - 1 then Inr (G10ERR_WRITE_FILE K, False, inp, pkt, pos, Some sink)
                      else (case copy_packet K inp sink pkttype pktlen of
                              (rc, inp, sink) \<Rightarrow> Inr (rc, False, inp, pkt, pos, Some sink)))
             | None \<Rightarrow>
                 if do_skip \<or> pkttype = 0 \<or> (reqtype \<noteq> 0 \<and> pkttype \<noteq> reqtype) then
                   Inr (0, True, skip_packet K inp pkttype pktlen, pkt, pos, out)
                 else
                   bnd (parse_body K inp pkttype pktlen hdr pkt) (\<lambda>(rc, inp, pkt).
                   Inr (rc, False, inp, pkt, pos, out)))))"

section \<open>The loops over packets\<close>

text \<open>
  Each loop calls \<^verbatim>\<open>parse\<close> again only after a call that took at least the header byte from
  the stream; the stream is finite, so the loops end.
\<close>

lemma iobuf_get_le: "iobuf_get a = (r, a') \<Longrightarrow> length (data a') \<le> length (data a)"
proof (cases r)
  case None
  assume "iobuf_get a = (r, a')"
  with None show ?thesis
    unfolding iobuf_get_def chunk_byte_def
    by (auto split: bmode.splits if_splits prod.splits option.splits
        dest!: raw_get_Some_shorter raw_get_None_same final_len_le)
next
  case (Some b)
  assume "iobuf_get a = (r, a')"
  with Some show ?thesis by (auto dest: iobuf_get_Some_shorter)
qed

lemma iobuf_get_noeof_shorter:
  "iobuf_get_noeof a = Inr (b, a') \<Longrightarrow> length (data a') < length (data a)"
  by (auto simp: iobuf_get_noeof_def split: prod.splits option.splits
      dest: iobuf_get_Some_shorter)

lemma get_discard_le: "length (data (get_discard n a)) \<le> length (data a)"
proof (induction n arbitrary: a)
  case 0
  show ?case by simp
next
  case (Suc n)
  have "length (data (snd (iobuf_get a))) \<le> length (data a)"
    by (cases "iobuf_get a") (auto dest: iobuf_get_le)
  with Suc [of "snd (iobuf_get a)"] show ?case by simp
qed

lemma drain_le: "length (data (drain a)) \<le> length (data a)"
proof (induction a rule: drain.induct)
  case (1 a)
  show ?case
  proof (cases "iobuf_get a")
    case (Pair r a')
    show ?thesis
    proof (cases r)
      case None
      with Pair show ?thesis by (subst drain.simps) (auto dest: iobuf_get_le)
    next
      case (Some b)
      with Pair "1.IH" [of r a' b] iobuf_get_le [OF Pair] show ?thesis
        by (subst drain.simps) auto
    qed
  qed
qed

lemma skip_rest_le: "length (data (skip_rest inp pktlen)) \<le> length (data inp)"
  by (simp add: skip_rest_def drain_le get_discard_le)

lemma skip_packet_le: "length (data (skip_packet K inp pkttype pktlen)) \<le> length (data inp)"
  by (simp add: skip_packet_def skip_rest_le drain_le get_discard_le)

lemma iobuf_read_le: "iobuf_read a n = (r, bs, a') \<Longrightarrow> length (data a') \<le> length (data a)"
proof -
  assume r: "iobuf_read a n = (r, bs, a')"
  obtain cs a1 where g: "get_upto n a = (cs, a1)" by (cases "get_upto n a")
  have "length (data (snd (iobuf_get a1))) \<le> length (data a1)"
    by (cases "iobuf_get a1") (auto dest: iobuf_get_le)
  with r g get_upto_length [OF g] show ?thesis
    by (auto simp: iobuf_read_def split: if_splits)
qed

lemma copy_to_eof_le:
  "copy_to_eof K inp out = (rc, inp', out') \<Longrightarrow> length (data inp') \<le> length (data inp)"
proof (induction K inp out arbitrary: rc inp' out' rule: copy_to_eof.induct)
  case (1 K inp out)
  obtain n buf inp1 where r: "iobuf_read inp 100 = (n, buf, inp1)"
    by (cases "iobuf_read inp 100")
  obtain w out1 where w: "iobuf_write out buf = (w, out1)" by (cases "iobuf_write out buf")
  note le = iobuf_read_le [OF r]
  show ?case
  proof (cases "n = - 1 \<or> w \<noteq> 0")
    case True
    with "1.prems" r w le show ?thesis by (subst (asm) copy_to_eof.simps) (auto split: if_splits)
  next
    case False
    with "1.prems" r w have "copy_to_eof K inp1 out1 = (rc, inp', out')"
      by (subst (asm) copy_to_eof.simps) auto
    with "1.IH" [OF r [symmetric] refl _ w [symmetric]] False le show ?thesis by auto
  qed
qed

lemma copy_counted_le:
  "copy_counted K inp out pktlen = (rc, inp', out') \<Longrightarrow> length (data inp') \<le> length (data inp)"
proof (induction K inp out pktlen arbitrary: rc inp' out' rule: copy_counted.induct)
  case (1 K inp out pktlen)
  show ?case
  proof (cases "pktlen = 0")
    case True
    with "1.prems" show ?thesis by (subst (asm) copy_counted.simps) auto
  next
    case nz: False
    obtain n buf inp1 where r:
      "iobuf_read inp (if 100 < pktlen then 100 else unat pktlen) = (n, buf, inp1)"
      by (cases "iobuf_read inp (if 100 < pktlen then 100 else unat pktlen)")
    obtain w out1 where w: "iobuf_write out buf = (w, out1)" by (cases "iobuf_write out buf")
    note le = iobuf_read_le [OF r]
    show ?thesis
    proof (cases "n = - 1 \<or> w \<noteq> 0")
      case True
      with "1.prems" nz r w le show ?thesis
        by (subst (asm) copy_counted.simps) (auto split: if_splits)
    next
      case False
      with "1.prems" nz r w
      have "copy_counted K inp1 out1 (pktlen - word_of_int n) = (rc, inp', out')"
        by (subst (asm) copy_counted.simps) auto
      with "1.IH" [OF nz r [symmetric] refl _ w [symmetric]] False le show ?thesis by auto
    qed
  qed
qed

lemma copy_packet_le:
  "copy_packet K inp out pkttype pktlen = (rc, inp', out')
    \<Longrightarrow> length (data inp') \<le> length (data inp)"
  by (auto simp: copy_packet_def split: if_splits dest: copy_to_eof_le copy_counted_le)

lemma read_length_le:
  "read_length k pktlen hdr inp = Inr (pktlen', hdr', inp')
    \<Longrightarrow> length (data inp') \<le> length (data inp)"
proof (induction k arbitrary: pktlen hdr inp)
  case 0
  then show ?case by simp
next
  case (Suc k)
  from Suc.prems obtain b inp1 where g: "iobuf_get_noeof inp = Inr (b, inp1)"
    and r: "read_length k (push_bit 8 pktlen OR ucast b) (hdr @ [b]) inp1 = Inr (pktlen', hdr', inp')"
    by (auto simp: bnd_def split: sum.splits)
  from Suc.IH [OF r] iobuf_get_noeof_shorter [OF g] show ?case by simp
qed

lemma parse_header_progress:
  assumes "parse_header K inp = Inr (h, inp')"
  shows "h = Return (- 1) \<or> length (data inp') < length (data inp)"
proof (cases "iobuf_get inp")
  case (Pair r inp1)
  show ?thesis
  proof (cases r)
    case None
    with Pair assms show ?thesis by (simp add: parse_header_def)
  next
    case (Some ctb)
    with Pair have s: "length (data inp1) < length (data inp)"
      by (auto dest: iobuf_get_Some_shorter)
    have "length (data inp') \<le> length (data inp1)"
      using assms Pair Some
      by (auto simp: parse_header_def bnd_def Let_def iobuf_set_partial_block_mode_def
          iobuf_set_block_mode_def
          split: if_splits prod.splits option.splits sum.splits
          dest!: iobuf_get_le iobuf_get_noeof_shorter read_length_le)
    with s show ?thesis by simp
  qed
qed

lemma parse_progress:
  assumes "parse K inp pkt reqtype retpos out do_skip = Inr (rc, skip, inp', pkt', pos, out')"
    and "skip \<or> (rc = 0 \<and> out \<noteq> None)"
  shows "length (data inp') < length (data inp)"
proof (cases "parse_header K inp")
  case (Inl e)
  with assms(1) show ?thesis by (simp add: parse_def bnd_def Let_def split: if_splits)
next
  case (Inr p)
  obtain h inp1 where p: "p = (h, inp1)" by (cases p)
  with Inr have h: "parse_header K inp = Inr (h, inp1)" by simp
  show ?thesis
  proof (cases h)
    case (Return r)
    with assms h have "r \<noteq> - 1" "inp' = inp1"
      by (auto simp: parse_def bnd_def Let_def split: if_splits)
    with parse_header_progress [OF h] Return show ?thesis by simp
  next
    case (Header pkttype pktlen hdr)
    with parse_header_progress [OF h] have s: "length (data inp1) < length (data inp)" by simp
    have "length (data inp') \<le> length (data inp1)"
      using assms h Header skip_packet_le [of K inp1 pkttype pktlen]
      by (auto simp: parse_def bnd_def Let_def
          split: if_splits prod.splits option.splits sum.splits dest!: copy_packet_le)
    with s show ?thesis by simp
  qed
qed

function parse_packet :: "macros \<Rightarrow> iobuf \<Rightarrow> PACKET \<Rightarrow> fault + (int \<times> iobuf \<times> PACKET)" where
  "parse_packet K inp pkt = (case parse K inp pkt 0 False None False of
      Inl e \<Rightarrow> Inl e
    | Inr (rc, skip, inp', pkt', pos, out') \<Rightarrow>
        if skip then parse_packet K inp' pkt' else Inr (rc, inp', pkt'))"
  by pat_completeness auto
termination
  by (relation "measure (\<lambda>(K, inp, pkt). length (data inp))")
     (auto dest!: parse_progress)

declare parse_packet.simps [simp del]

function search_packet ::
  "macros \<Rightarrow> iobuf \<Rightarrow> PACKET \<Rightarrow> int \<Rightarrow> bool
     \<Rightarrow> fault + (int \<times> iobuf \<times> PACKET \<times> nat option)" where
  "search_packet K inp pkt pkttype retpos = (case parse K inp pkt pkttype retpos None False of
      Inl e \<Rightarrow> Inl e
    | Inr (rc, skip, inp', pkt', pos, out') \<Rightarrow>
        if skip then search_packet K inp' pkt' pkttype retpos else Inr (rc, inp', pkt', pos))"
  by pat_completeness auto
termination
  by (relation "measure (\<lambda>(K, inp, pkt, pkttype, retpos). length (data inp))")
     (auto dest!: parse_progress)

declare search_packet.simps [simp del]

text \<open>The sink after a call of \<^verbatim>\<open>parse\<close> in copy mode.\<close>

definition sink_after :: "sink option \<Rightarrow> sink \<Rightarrow> sink" where
  "sink_after r out = (case r of Some sink \<Rightarrow> sink | None \<Rightarrow> out)"

function copy_all_packets :: "macros \<Rightarrow> iobuf \<Rightarrow> sink \<Rightarrow> fault + (int \<times> iobuf \<times> sink)" where
  "copy_all_packets K inp out = (case parse K inp init_packet 0 False (Some out) False of
      Inl e \<Rightarrow> Inl e
    | Inr (rc, skip, inp', pkt', pos, out') \<Rightarrow>
        if rc = 0 then copy_all_packets K inp' (sink_after out' out)
        else Inr (rc, inp', sink_after out' out))"
  by pat_completeness auto
termination
  by (relation "measure (\<lambda>(K, inp, out). length (data inp))")
     (auto dest!: parse_progress)

declare copy_all_packets.simps [simp del]

function copy_some_packets ::
  "macros \<Rightarrow> iobuf \<Rightarrow> sink \<Rightarrow> nat \<Rightarrow> fault + (int \<times> iobuf \<times> sink)" where
  "copy_some_packets K inp out stopoff =
     (if stopoff \<le> iobuf_tell inp then Inr (0, inp, out)
      else (case parse K inp init_packet 0 False (Some out) False of
              Inl e \<Rightarrow> Inl e
            | Inr (rc, skip, inp', pkt', pos, out') \<Rightarrow>
                if rc = 0 then copy_some_packets K inp' (sink_after out' out) stopoff
                else Inr (rc, inp', sink_after out' out)))"
  by pat_completeness auto
termination
  by (relation "measure (\<lambda>(K, inp, out, stopoff). length (data inp))")
     (auto dest!: parse_progress)

declare copy_some_packets.simps [simp del]

text \<open>\<^verbatim>\<open>for( ;n && !rc; n--)\<close>\<close>

fun skip_some_packets :: "macros \<Rightarrow> iobuf \<Rightarrow> nat \<Rightarrow> fault + (int \<times> iobuf)" where
  "skip_some_packets K inp 0 = Inr (0, inp)"
| "skip_some_packets K inp (Suc n) = (case parse K inp init_packet 0 False None True of
      Inl e \<Rightarrow> Inl e
    | Inr (rc, skip, inp', pkt', pos, out') \<Rightarrow>
        if rc \<noteq> 0 then Inr (rc, inp') else skip_some_packets K inp' n)"


section \<open>Streams and constants for the statements\<close>

text \<open>
  \<open>plain bs\<close> is a byte source that holds the bytes \<open>bs\<close>, of which nothing has been read
  and on which no mode is set.  \<open>sample_macros\<close> gives the parameters of the model the
  packet tags of the OpenPGP wire format and some positive error codes; it serves where
  a statement is evaluated on a concrete stream.
\<close>

definition plain :: "byte list \<Rightarrow> iobuf" where
  "plain bs = \<lparr>data = bs, nbytes = 0, bmode = Plain\<rparr>"

definition sample_macros :: macros where
  "sample_macros = \<lparr>list_mode = False,
     G10ERR_INVALID_PACKET = 14, G10ERR_UNKNOWN_PACKET = 2,
     G10ERR_WRITE_FILE = 22, G10ERR_READ_FILE = 21,
     PKT_PUBKEY_ENC = 1, PKT_SIGNATURE = 2, PKT_SYMKEY_ENC = 3, PKT_ONEPASS_SIG = 4,
     PKT_SECRET_CERT = 5, PKT_PUBLIC_CERT = 6, PKT_SECKEY_SUBCERT = 7, PKT_COMPRESSED = 8,
     PKT_ENCRYPTED = 9, PKT_PLAINTEXT = 11, PKT_RING_TRUST = 12, PKT_USER_ID = 13,
     PKT_PUBKEY_SUBCERT = 14, PKT_OLD_COMMENT = 16, PKT_COMMENT = 61,
     is_ELGAMAL = (\<lambda>a. a = 16 \<or> a = 20), is_RSA = (\<lambda>a. a = 1 \<or> a = 2 \<or> a = 3),
     PUBKEY_ALGO_DSA = 17, CIPHER_ALGO_BLOWFISH160 = 42,
     DIGEST_ALGO_RMD160 = 3, DIGEST_ALGO_MD5 = 1\<rparr>"

lemmas source_defs = iobuf_get_def raw_get_def iobuf_get_noeof_def bnd_def plain_def

section \<open>The header decoder\<close>

text \<open>
  C1.  The claim: in new-format framing a first length byte 255 makes the decoder read four
  more bytes as a big-endian length, and a first length byte \<open>c\<close> in 224..254 makes it enter
  partial-block mode with chunk size \<open>2 ^ (c - 224)\<close> and set the length to 0.  The code
  has the two cases the other way round (\<^verbatim>\<open>else if( c < 255 )\<close> guards the four-byte
  length), and its partial branch passes the length 0 to the byte source.  On a stream
  that starts \<^verbatim>\<open>CB FF 00 00 00 05\<close> the decoder reads the two bytes \<^verbatim>\<open>CB FF\<close> only and
  enters partial mode with chunk size 0; on a stream that starts \<^verbatim>\<open>CB E2 01 02 03 04\<close> it
  reads six bytes, returns the length \<^verbatim>\<open>0x01020304\<close> and sets no mode.
\<close>

theorem new_format_length_255_and_partial_swapped:
  "parse_header K (plain [0xCB, 0xFF, 0x00, 0x00, 0x00, 0x05, 1, 2, 3, 4, 5]) =
     Inr (Header 11 0 [0xCB, 0xFF],
          \<lparr>data = [0x00, 0x00, 0x00, 0x05, 1, 2, 3, 4, 5], nbytes = 2, bmode = Partial 0\<rparr>)
   \<and> parse_header K (plain [0xCB, 0xE2, 0x01, 0x02, 0x03, 0x04, 0x00]) =
     Inr (Header 11 0x01020304 [0xCB, 0xE2, 0x01, 0x02, 0x03, 0x04],
          \<lparr>data = [0x00], nbytes = 6, bmode = Plain\<rparr>)"
  by (simp add: parse_header_def source_defs iobuf_set_partial_block_mode_def)

text \<open>
  C8.  \<^verbatim>\<open>parse\<close> returns \<open>-1\<close> when the byte source is at its end before the first
  header byte, and \<^verbatim>\<open>G10ERR_INVALID_PACKET\<close> when bit 7 of the first byte is clear.  In both
  cases \<^verbatim>\<open>*skip\<close> is 0 and the packet is as it was, without a record.  With the error codes
  positive, as the comment before \<^verbatim>\<open>parse_packet\<close> has them, \<open>-1\<close> is none of them.
\<close>

theorem parse_end_of_stream_and_invalid_ctb:
  assumes "pkt_pkt pkt = Generic_NULL"
  shows "(iobuf_get inp = (None, inp') \<longrightarrow>
            parse K inp pkt reqtype retpos out do_skip =
              Inr (- 1, False, inp', pkt, if retpos then Some (iobuf_tell inp) else None, out))
       \<and> (iobuf_get inp = (Some ctb, inp') \<and> ctb AND 0x80 = 0 \<longrightarrow>
            parse K inp pkt reqtype retpos out do_skip =
              Inr (G10ERR_INVALID_PACKET K, False, inp', pkt,
                   if retpos then Some (iobuf_tell inp) else None, out))
       \<and> ((\<forall>e \<in> {G10ERR_INVALID_PACKET K, G10ERR_UNKNOWN_PACKET K,
                     G10ERR_WRITE_FILE K, G10ERR_READ_FILE K}. 0 < e) \<longrightarrow>
            - 1 \<notin> {G10ERR_INVALID_PACKET K, G10ERR_UNKNOWN_PACKET K,
                     G10ERR_WRITE_FILE K, G10ERR_READ_FILE K})"
  using assms by (auto simp: parse_def parse_header_def bnd_def)

theorem parse_end_of_stream_and_invalid_ctb_witness:
  "parse sample_macros (plain []) init_packet 0 False None False =
     Inr (- 1, False, plain [], init_packet, None, None)
   \<and> parse sample_macros (plain [0x34, 0x01]) init_packet 0 False None False =
     Inr (14, False, \<lparr>data = [0x01], nbytes = 1, bmode = Plain\<rparr>, init_packet, None, None)
   \<and> - 1 \<notin> {G10ERR_INVALID_PACKET sample_macros, G10ERR_UNKNOWN_PACKET sample_macros,
              G10ERR_WRITE_FILE sample_macros, G10ERR_READ_FILE sample_macros}"
proof -
  have n: "pkt_pkt init_packet = Generic_NULL" by (simp add: init_packet_def)
  have e: "iobuf_get (plain []) = (None, plain [])" by (simp add: source_defs)
  have i: "iobuf_get (plain [0x34, 0x01]) =
             (Some 0x34, \<lparr>data = [0x01], nbytes = 1, bmode = Plain\<rparr>) \<and> (0x34 :: byte) AND 0x80 = 0"
    by (simp add: source_defs)
  have p: "\<forall>e \<in> {G10ERR_INVALID_PACKET sample_macros, G10ERR_UNKNOWN_PACKET sample_macros,
                   G10ERR_WRITE_FILE sample_macros, G10ERR_READ_FILE sample_macros}. 0 < e"
    by (simp add: sample_macros_def)
  from parse_end_of_stream_and_invalid_ctb [OF n, of "plain []" "plain []" sample_macros 0 False None False]
    e p
  have 1: "parse sample_macros (plain []) init_packet 0 False None False =
     Inr (- 1, False, plain [], init_packet, None, None)"
    and 3: "- 1 \<notin> {G10ERR_INVALID_PACKET sample_macros, G10ERR_UNKNOWN_PACKET sample_macros,
              G10ERR_WRITE_FILE sample_macros, G10ERR_READ_FILE sample_macros}"
    by simp_all
  from parse_end_of_stream_and_invalid_ctb [OF n, of "plain [0x34, 0x01]"
      "\<lparr>data = [0x01], nbytes = 1, bmode = Plain\<rparr>" sample_macros 0 False None False "0x34"] i
  have 2: "parse sample_macros (plain [0x34, 0x01]) init_packet 0 False None False =
     Inr (14, False, \<lparr>data = [0x01], nbytes = 1, bmode = Plain\<rparr>, init_packet, None, None)"
    by (simp add: sample_macros_def)
  from 1 2 3 show ?thesis by simp
qed


subsection \<open>Legacy lengths\<close>

lemma read_length_get_n:
  "get_n k inp = Inr (bs, inp') \<Longrightarrow>
     read_length k pktlen hdr inp =
       Inr (foldl (\<lambda>v b. push_bit 8 v OR ucast b) pktlen bs, hdr @ bs, inp')"
proof (induction k arbitrary: inp bs pktlen hdr)
  case 0
  then show ?case by simp
next
  case (Suc k)
  from Suc.prems obtain b inp1 cs where g: "iobuf_get_noeof inp = Inr (b, inp1)"
    and r: "get_n k inp1 = Inr (cs, inp')" and bs: "bs = b # cs"
    by (auto simp: bnd_def split: sum.splits)
  from Suc.IH [OF r] g bs show ?case by (simp add: bnd_def)
qed

lemma shift_or_byte:
  fixes v :: ulong and b :: byte
  assumes "unat v < 2 ^ 24"
  shows "unat (push_bit 8 v OR ucast b) = unat v * 256 + unat b"
proof -
  have "push_bit 8 v AND (ucast b :: ulong) = 0"
    by (rule bit_eqI) (auto simp: bit_simps dest: bit_imp_le_length)
  then have "push_bit 8 v OR ucast b = push_bit 8 v + (ucast b :: ulong)"
    by (simp add: disjunctive_add_eq_or)
  also have "\<dots> = v * 256 + ucast b" by (simp add: push_bit_eq_mult)
  finally have e: "push_bit 8 v OR ucast b = v * 256 + (ucast b :: ulong)" .
  have b: "unat b < 256" using unsigned_less [of b, where 'a = nat] by simp
  have "unat (v * 256 + (ucast b :: ulong)) = (unat v * 256 + unat b) mod 2 ^ 32"
    by (simp add: unat_word_ariths unsigned_ucast_eq take_bit_eq_mod mod_simps)
  also from assms b have "\<dots> = unat v * 256 + unat b" by simp
  finally show ?thesis using e by simp
qed

lemma be_nat_snoc: "be_nat (bs @ [b]) = be_nat bs * 256 + unat b"
  by (simp add: be_nat_def)

lemma big_endian_fold:
  "length bs \<le> 4 \<Longrightarrow>
     unat (foldl (\<lambda>v b. push_bit 8 v OR ucast b) (0 :: ulong) bs) = be_nat bs
     \<and> be_nat bs < 256 ^ length bs"
proof (induction bs rule: rev_induct)
  case Nil
  show ?case by (simp add: be_nat_def)
next
  case (snoc b bs)
  then have ih: "unat (foldl (\<lambda>v b. push_bit 8 v OR ucast b) (0 :: ulong) bs) = be_nat bs"
    and lt: "be_nat bs < 256 ^ length bs" and len: "length bs \<le> 3" by simp_all
  from len have "(256 :: nat) ^ length bs \<le> 256 ^ 3" by (intro power_increasing) simp_all
  with lt have small: "be_nat bs < 2 ^ 24" by simp
  have b: "unat b < 256" using unsigned_less [of b, where 'a = nat] by simp
  from lt have "be_nat bs + 1 \<le> 256 ^ length bs" by simp
  then have "(be_nat bs + 1) * 256 \<le> 256 ^ length bs * 256" by (rule mult_le_mono1)
  with b have "be_nat bs * 256 + unat b < 256 ^ length (bs @ [b])" by simp
  with shift_or_byte [of "foldl (\<lambda>v b. push_bit 8 v OR ucast b) 0 bs" b] ih small
  show ?case by (simp add: be_nat_snoc)
qed

text \<open>
  C7.  For a legacy header byte \<open>ctb\<close> (bit 7 set, bit 6 clear) the packet type is
  \<open>(ctb >> 2) & 0xF\<close> and the length field has 0 bytes when \<open>(ctb & 3) = 3\<close> and
  \<open>1 << (ctb & 3)\<close> bytes otherwise, that is 1, 2 or 4.  With no length field the length is
  0 and the source is put into block mode unless the type is \<^verbatim>\<open>PKT_COMPRESSED\<close>.  Otherwise,
  when the source delivers the bytes \<open>bs\<close> of the length field, the decoded length is
  their big-endian value and the header bytes are \<open>ctb\<close> and \<open>bs\<close>.
\<close>

theorem legacy_header_decoding:
  assumes "iobuf_get inp = (Some ctb, inp1)" and "ctb AND 0x80 \<noteq> 0" and "ctb AND 0x40 = 0"
  shows "let pkttype = uint (drop_bit 2 ctb AND 0xf);
             lenbytes = (if ctb AND 3 = 3 then 0 else 2 ^ unat (ctb AND 3))
         in (lenbytes = 0 \<longrightarrow>
               parse_header K inp =
                 Inr (Header pkttype 0 [ctb],
                      if pkttype \<noteq> PKT_COMPRESSED K then inp1\<lparr>bmode := Block\<rparr> else inp1))
          \<and> (lenbytes \<noteq> 0 \<longrightarrow>
               lenbytes \<in> {1, 2, 4}
               \<and> (\<forall>bs inp2. get_n lenbytes inp1 = Inr (bs, inp2) \<longrightarrow>
                     parse_header K inp =
                       Inr (Header pkttype (word_of_nat (be_nat bs)) (ctb # bs), inp2)
                     \<and> unat (word_of_nat (be_nat bs) :: ulong) = be_nat bs))"
proof -
  define lenbytes :: nat where "lenbytes = (if ctb AND 3 = 3 then 0 else 2 ^ unat (ctb AND 3))"
  have "ctb AND 3 \<le> 3" by (rule word_and_le1)
  then have "unat (ctb AND 3) \<le> 3" by (simp add: word_le_nat_alt)
  then have "unat (ctb AND 3) \<in> {0, 1, 2, 3}" by auto
  moreover have "unat (ctb AND 3) = 3 \<longleftrightarrow> ctb AND 3 = 3"
    by (simp add: word_unat_eq_iff [of "ctb AND 3" 3])
  ultimately have len: "lenbytes \<in> {0, 1, 2, 4}" "lenbytes = 0 \<longleftrightarrow> ctb AND 3 = 3"
    by (auto simp: lenbytes_def)
  have zero: "parse_header K inp =
      Inr (Header (uint (drop_bit 2 ctb AND 0xf)) 0 [ctb],
           if uint (drop_bit 2 ctb AND 0xf) \<noteq> PKT_COMPRESSED K then inp1\<lparr>bmode := Block\<rparr> else inp1)"
    if "lenbytes = 0"
    using that assms len by (simp add: parse_header_def lenbytes_def iobuf_set_block_mode_def)
  have field: "parse_header K inp =
      Inr (Header (uint (drop_bit 2 ctb AND 0xf)) (word_of_nat (be_nat bs)) (ctb # bs), inp2)
      \<and> unat (word_of_nat (be_nat bs) :: ulong) = be_nat bs"
    if nz: "lenbytes \<noteq> 0" and g: "get_n lenbytes inp1 = Inr (bs, inp2)" for bs inp2
  proof -
    have l: "length bs = lenbytes"
      using g
    proof (induction lenbytes arbitrary: inp1 bs)
      case 0
      then show ?case by simp
    next
      case (Suc k)
      then show ?case by (auto simp: bnd_def split: sum.splits prod.splits)
    qed
    with len have "length bs \<le> 4" by auto
    from big_endian_fold [OF this]
    have v: "unat (foldl (\<lambda>v b. push_bit 8 v OR ucast b) (0 :: ulong) bs) = be_nat bs" by simp
    have w: "foldl (\<lambda>v b. push_bit 8 v OR ucast b) (0 :: ulong) bs = word_of_nat (be_nat bs)"
      unfolding v [symmetric] by simp
    from read_length_get_n [OF g, of 0 "[ctb]"] w
    have "read_length lenbytes 0 [ctb] inp1 = Inr (word_of_nat (be_nat bs), ctb # bs, inp2)"
      by simp
    moreover from nz len have "ctb AND 3 \<noteq> 3" "2 ^ unat (ctb AND 3) = lenbytes"
      by (simp_all add: lenbytes_def)
    moreover from v w have "unat (word_of_nat (be_nat bs) :: ulong) = be_nat bs" by simp
    ultimately show ?thesis using assms nz
      by (simp add: parse_header_def bnd_def Let_def)
  qed
  from len zero field show ?thesis
    unfolding Let_def lenbytes_def [symmetric] by auto
qed

theorem legacy_header_decoding_witness:
  "parse_header sample_macros (plain [0xB4, 0x05, 0x48, 0x65, 0x6C, 0x6C, 0x6F]) =
     Inr (Header 13 5 [0xB4, 0x05],
          \<lparr>data = [0x48, 0x65, 0x6C, 0x6C, 0x6F], nbytes = 2, bmode = Plain\<rparr>)
   \<and> parse_header sample_macros (plain [0xB7, 0x61]) =
     Inr (Header 13 0 [0xB7], \<lparr>data = [0x61], nbytes = 1, bmode = Block\<rparr>)"
proof -
  have a: "iobuf_get (plain [0xB4, 0x05, 0x48, 0x65, 0x6C, 0x6C, 0x6F]) =
      (Some 0xB4, \<lparr>data = [0x05, 0x48, 0x65, 0x6C, 0x6C, 0x6F], nbytes = 1, bmode = Plain\<rparr>)"
    "(0xB4 :: byte) AND 0x80 \<noteq> 0" "(0xB4 :: byte) AND 0x40 = 0"
    by (simp_all add: source_defs)
  have g: "get_n 1 \<lparr>data = [0x05, 0x48, 0x65, 0x6C, 0x6C, 0x6F], nbytes = 1, bmode = Plain\<rparr> =
      Inr ([0x05], \<lparr>data = [0x48, 0x65, 0x6C, 0x6C, 0x6F], nbytes = 2, bmode = Plain\<rparr>)"
    by (simp add: source_defs)
  have b: "iobuf_get (plain [0xB7, 0x61]) = (Some 0xB7, \<lparr>data = [0x61], nbytes = 1, bmode = Plain\<rparr>)"
    "(0xB7 :: byte) AND 0x80 \<noteq> 0" "(0xB7 :: byte) AND 0x40 = 0"
    by (simp_all add: source_defs)
  from legacy_header_decoding [OF a, of sample_macros] g
  have 1: "parse_header sample_macros (plain [0xB4, 0x05, 0x48, 0x65, 0x6C, 0x6C, 0x6F]) =
     Inr (Header 13 5 [0xB4, 0x05],
          \<lparr>data = [0x48, 0x65, 0x6C, 0x6C, 0x6F], nbytes = 2, bmode = Plain\<rparr>)"
    by (simp add: be_nat_def)
  from legacy_header_decoding [OF b, of sample_macros]
  have 2: "parse_header sample_macros (plain [0xB7, 0x61]) =
     Inr (Header 13 0 [0xB7], \<lparr>data = [0x61], nbytes = 1, bmode = Block\<rparr>)"
    by (simp add: sample_macros_def)
  from 1 2 show ?thesis by simp
qed


section \<open>Reading a stream on which no mode is set\<close>

lemma iobuf_get_plain:
  "bmode a = Plain \<Longrightarrow> iobuf_get a = (case data a of
      [] \<Rightarrow> (None, a)
    | b # bs \<Rightarrow> (Some b, a\<lparr>data := bs, nbytes := Suc (nbytes a)\<rparr>))"
  by (simp add: iobuf_get_def raw_get_def)

lemma get_n_plain:
  "bmode a = Plain \<Longrightarrow> n \<le> length (data a) \<Longrightarrow>
     get_n n a = Inr (take n (data a), a\<lparr>data := drop n (data a), nbytes := nbytes a + n\<rparr>)"
proof (induction n arbitrary: a)
  case 0
  then show ?case by simp
next
  case (Suc n)
  then obtain b bs where d: "data a = b # bs" by (cases "data a") auto
  let ?a = "a\<lparr>data := bs, nbytes := Suc (nbytes a)\<rparr>"
  from Suc.prems d have "bmode ?a = Plain" "n \<le> length (data ?a)" by simp_all
  from Suc.IH [OF this] Suc.prems d show ?case
    by (simp add: iobuf_get_noeof_def iobuf_get_plain bnd_def)
qed

lemma get_n_plain_short:
  "bmode a = Plain \<Longrightarrow> length (data a) < n \<Longrightarrow> get_n n a = Inl Source_Failed"
proof (induction n arbitrary: a)
  case 0
  then show ?case by simp
next
  case (Suc n)
  show ?case
  proof (cases "data a")
    case Nil
    with Suc.prems show ?thesis by (simp add: iobuf_get_noeof_def iobuf_get_plain bnd_def)
  next
    case (Cons b bs)
    let ?a = "a\<lparr>data := bs, nbytes := Suc (nbytes a)\<rparr>"
    from Suc.prems Cons have "bmode ?a = Plain" "length (data ?a) < n" by simp_all
    from Suc.IH [OF this] Suc.prems Cons show ?thesis
      by (simp add: iobuf_get_noeof_def iobuf_get_plain bnd_def)
  qed
qed

lemma get_bytes_plain:
  "bmode a = Plain \<Longrightarrow> min k (unat pktlen) \<le> length (data a) \<Longrightarrow>
     get_bytes k pktlen a =
       Inr (take (min k (unat pktlen)) (data a), pktlen - word_of_nat (min k (unat pktlen)),
            a\<lparr>data := drop (min k (unat pktlen)) (data a),
              nbytes := nbytes a + min k (unat pktlen)\<rparr>)"
proof (induction k arbitrary: a pktlen)
  case 0
  then show ?case by simp
next
  case (Suc k)
  show ?case
  proof (cases "pktlen = 0")
    case True
    then show ?thesis by simp
  next
    case False
    then have u: "unat (pktlen - 1) = unat pktlen - 1" "0 < unat pktlen"
      by (simp_all add: unat_minus_one unat_gt_0)
    then have m: "min (Suc k) (unat pktlen) = Suc (min k (unat (pktlen - 1)))" by (auto simp: min_def)
    with Suc.prems obtain b bs where d: "data a = b # bs" by (cases "data a") auto
    let ?a = "a\<lparr>data := bs, nbytes := Suc (nbytes a)\<rparr>"
    from Suc.prems d m have "bmode ?a = Plain" "min k (unat (pktlen - 1)) \<le> length (data ?a)"
      by simp_all
    from Suc.IH [OF this] Suc.prems d False show ?thesis
      by (simp add: iobuf_get_noeof_def iobuf_get_plain bnd_def m)
  qed
qed

lemma get_discard_plain:
  "bmode a = Plain \<Longrightarrow>
     get_discard n a = a\<lparr>data := drop n (data a), nbytes := nbytes a + min n (length (data a))\<rparr>"
proof (induction n arbitrary: a)
  case 0
  then show ?case by simp
next
  case (Suc n)
  show ?case
  proof (cases "data a")
    case Nil
    with Suc.prems Suc.IH [of a] show ?thesis by (simp add: iobuf_get_plain)
  next
    case (Cons b bs)
    let ?a = "a\<lparr>data := bs, nbytes := Suc (nbytes a)\<rparr>"
    from Suc.prems have "bmode ?a = Plain" by simp
    from Suc.IH [OF this] Suc.prems Cons show ?thesis by (simp add: iobuf_get_plain)
  qed
qed

lemma get_upto_plain:
  "bmode a = Plain \<Longrightarrow>
     get_upto n a =
       (take n (data a), a\<lparr>data := drop n (data a), nbytes := nbytes a + min n (length (data a))\<rparr>)"
proof (induction n arbitrary: a)
  case 0
  then show ?case by simp
next
  case (Suc n)
  show ?case
  proof (cases "data a")
    case Nil
    with Suc.prems show ?thesis by (simp add: iobuf_get_plain)
  next
    case (Cons b bs)
    let ?a = "a\<lparr>data := bs, nbytes := Suc (nbytes a)\<rparr>"
    from Suc.prems have "bmode ?a = Plain" by simp
    from Suc.IH [OF this] Suc.prems Cons show ?thesis by (simp add: iobuf_get_plain)
  qed
qed

lemma skip_rest_plain:
  "bmode a = Plain \<Longrightarrow>
     skip_rest a pktlen =
       a\<lparr>data := drop (unat pktlen) (data a),
         nbytes := nbytes a + min (unat pktlen) (length (data a))\<rparr>"
  by (simp add: skip_rest_def iobuf_in_block_mode_def get_discard_plain)

lemmas plain_reads = iobuf_get_plain get_n_plain get_bytes_plain get_discard_plain
  get_upto_plain skip_rest_plain iobuf_get_noeof_def bnd_def plain_def

section \<open>\<^verbatim>\<open>parse_symkeyenc\<close>\<close>

lemma get_bytes_count:
  "get_bytes k pktlen inp = Inr (bs, pktlen', inp') \<Longrightarrow>
     length bs = min k (unat pktlen) \<and> unat pktlen' = unat pktlen - min k (unat pktlen)"
proof (induction k arbitrary: pktlen inp bs)
  case 0
  then show ?case by simp
next
  case (Suc k)
  show ?case
  proof (cases "pktlen = 0")
    case True
    with Suc.prems show ?thesis by simp
  next
    case False
    with Suc.prems obtain b inp1 cs where r: "get_bytes k (pktlen - 1) inp1 = Inr (cs, pktlen', inp')"
      and bs: "bs = b # cs"
      by (auto simp: bnd_def split: sum.splits)
    from False have "unat pktlen \<noteq> 0" by (simp add: unat_eq_zero)
    then have u: "unat (pktlen - 1) = unat pktlen - 1" "0 < unat pktlen"
      by (simp_all add: unat_minus_one False)
    from Suc.IH [OF r] bs u show ?thesis by (auto simp: min_def)
  qed
qed

lemma sint_small:
  fixes w :: ulong
  assumes "unat w < 2 ^ 31"
  shows "sint w = int (unat w)"
proof -
  from assms have "int (unat w) < int (2 ^ 31)" by (simp only: of_nat_less_iff)
  then have "uint w < 2 ^ 31" by simp
  moreover have "- (2 ^ 31) \<le> (0 :: int)" by simp
  then have "- (2 ^ 31) \<le> uint w" by (rule order_trans) simp
  ultimately have "signed_take_bit 31 (uint w) = uint w"
    by (intro signed_take_bit_int_eq_self)
  then show ?thesis by (simp add: sint_uint)
qed

lemma iobuf_get_noeof_fault: "iobuf_get_noeof a = Inl e \<Longrightarrow> e = Source_Failed"
  by (auto simp: iobuf_get_noeof_def split: prod.splits option.splits)

lemma get_bytes_fault: "get_bytes k pktlen inp = Inl e \<Longrightarrow> e = Source_Failed"
proof (induction k arbitrary: pktlen inp)
  case 0
  then show ?case by simp
next
  case (Suc k)
  then show ?case
    by (auto simp: bnd_def split: if_splits sum.splits dest!: iobuf_get_noeof_fault)
qed

lemma read_32_fault: "read_32 inp = Inl e \<Longrightarrow> e = Source_Failed"
  by (auto simp: read_32_def bnd_def split: sum.splits dest!: iobuf_get_noeof_fault)

lemma symkeyenc_fields_fault:
  "symkeyenc_fields inp pktlen version cipher_algo s2kmode hash_algo seskeylen = Inl e
     \<Longrightarrow> e = Source_Failed"
  by (auto simp: symkeyenc_fields_def bnd_def split: sum.splits if_splits
      dest!: get_bytes_fault read_32_fault)

lemma read_32_result:
  "read_32 inp = Inr (v, inp') \<Longrightarrow> length (data inp') < length (data inp)"
  by (auto simp: read_32_def bnd_def split: sum.splits dest!: iobuf_get_noeof_shorter)

lemma symkeyenc_fields_counter:
  assumes mode: "s2kmode = 0 \<or> s2kmode = 1 \<or> s2kmode = 4"
    and minlen: "minlen = (if s2kmode = 0 then 0 else if s2kmode = 1 then 8 else (12 :: int))"
    and enough: "\<not> pktlen < word_of_int minlen"
    and small: "pktlen \<le> 200"
    and f: "symkeyenc_fields inp pktlen version cipher_algo s2kmode hash_algo
              (sint (pktlen - word_of_int minlen)) = Inr (k, pktlen', inp')"
  shows "pktlen' = 0"
proof -
  from small have n: "unat pktlen \<le> 200" by (simp add: word_le_nat_alt)
  from mode minlen have m: "minlen = 0 \<or> minlen = 8 \<or> minlen = 12" by auto
  then have um: "unat (word_of_int minlen :: ulong) = nat minlen" by auto
  with enough have le: "nat minlen \<le> unat pktlen" by (simp add: word_less_nat_alt)
  then have d: "unat (pktlen - word_of_int minlen) = unat pktlen - nat minlen"
    using um by (simp add: unat_sub word_le_nat_alt)
  from d n have "unat (pktlen - word_of_int minlen) < 2 ^ 31" by simp
  from sint_small [OF this] d
  have s: "nat (sint (pktlen - word_of_int minlen)) = unat pktlen - nat minlen" by simp
  from mode show ?thesis
  proof (elim disjE)
    assume z: "s2kmode = 0"
    with f s minlen obtain seskey where "get_bytes (unat pktlen) pktlen inp = Inr (seskey, pktlen', inp')"
      by (auto simp: symkeyenc_fields_def bnd_def split: sum.splits)
    from get_bytes_count [OF this] show ?thesis by (simp add: unat_eq_zero)
  next
    assume o: "s2kmode = 1"
    with f s minlen obtain salt p1 inp1 seskey where
      a: "get_bytes 8 pktlen inp = Inr (salt, p1, inp1)"
      and b: "get_bytes (unat pktlen - 8) p1 inp1 = Inr (seskey, pktlen', inp')"
      by (auto simp: symkeyenc_fields_def bnd_def split: sum.splits)
    from get_bytes_count [OF a] le o minlen have "unat p1 = unat pktlen - 8" by simp
    with get_bytes_count [OF b] show ?thesis by (simp add: unat_eq_zero)
  next
    assume i: "s2kmode = 4"
    with f s minlen obtain salt p1 inp1 count inp2 seskey where
      a: "get_bytes 8 pktlen inp = Inr (salt, p1, inp1)"
      and b: "get_bytes (unat pktlen - 12) (p1 - 4) inp2 = Inr (seskey, pktlen', inp')"
      by (auto simp: symkeyenc_fields_def bnd_def split: sum.splits)
    from get_bytes_count [OF a] le i minlen have p1: "unat p1 = unat pktlen - 8" "12 \<le> unat pktlen"
      by simp_all
    then have "unat (p1 - 4) = unat pktlen - 12" by (simp add: unat_sub word_le_nat_alt)
    with get_bytes_count [OF b] show ?thesis by (simp add: unat_eq_zero)
  qed
qed

text \<open>
  The part of \<^verbatim>\<open>parse_symkeyenc\<close> after the four fixed bytes, from the \<^verbatim>\<open>switch\<close> on the S2K
  mode to \<^verbatim>\<open>leave\<close>, named for the proofs.
\<close>

definition symkeyenc_s2k ::
  "iobuf \<Rightarrow> ulong \<Rightarrow> byte \<Rightarrow> byte \<Rightarrow> byte \<Rightarrow> byte \<Rightarrow> PACKET
     \<Rightarrow> fault + (int \<times> iobuf \<times> PACKET)" where
  "symkeyenc_s2k inp pktlen version cipher_algo s2kmode hash_algo packet =
     (if s2kmode \<noteq> 0 \<and> s2kmode \<noteq> 1 \<and> s2kmode \<noteq> 4 then leave inp pktlen 0 packet
      else
        let minlen = (if s2kmode = 0 then 0 else if s2kmode = 1 then 8 else (12 :: int)) in
        if pktlen < word_of_int minlen then leave inp pktlen 0 packet
        else
          bnd (symkeyenc_fields inp pktlen version cipher_algo s2kmode hash_algo
                 (sint (pktlen - word_of_int minlen)))
            (\<lambda>(k, pktlen, inp).
          if pktlen \<noteq> 0 then Inl Assertion_Failed
          else leave inp pktlen 0 (packet\<lparr>pkt_pkt := Symkey_enc k\<rparr>)))"

lemma parse_symkeyenc_unfold:
  "parse_symkeyenc inp pkttype pktlen packet =
     (if pktlen < 4 then leave inp pktlen 0 packet
      else
        bnd (iobuf_get_noeof inp) (\<lambda>(version, inp).
        if version \<noteq> 4 then leave inp (pktlen - 1) 0 packet
        else if 200 < pktlen - 1 then leave inp (pktlen - 1) 0 packet
        else
          bnd (iobuf_get_noeof inp) (\<lambda>(cipher_algo, inp).
          bnd (iobuf_get_noeof inp) (\<lambda>(s2kmode, inp).
          bnd (iobuf_get_noeof inp) (\<lambda>(hash_algo, inp).
          symkeyenc_s2k inp (pktlen - 1 - 3) version cipher_algo s2kmode hash_algo packet)))))"
  by (simp only: parse_symkeyenc_def symkeyenc_s2k_def Let_def)

lemma symkeyenc_s2k_no_assert:
  assumes "pktlen \<le> 200"
  shows "symkeyenc_s2k inp pktlen version cipher_algo s2kmode hash_algo packet
           \<noteq> Inl Assertion_Failed"
proof -
  define minlen where "minlen = (if s2kmode = 0 then 0 else if s2kmode = 1 then 8 else (12 :: int))"
  have tail: "bnd (symkeyenc_fields inp pktlen version cipher_algo s2kmode hash_algo
                    (sint (pktlen - word_of_int minlen)))
                (\<lambda>(k, pktlen, inp).
                   if pktlen \<noteq> 0 then Inl Assertion_Failed
                   else leave inp pktlen 0 (packet\<lparr>pkt_pkt := Symkey_enc k\<rparr>))
              \<noteq> Inl Assertion_Failed"
    if mode: "s2kmode = 0 \<or> s2kmode = 1 \<or> s2kmode = 4"
      and enough: "\<not> pktlen < word_of_int minlen"
  proof (cases "symkeyenc_fields inp pktlen version cipher_algo s2kmode hash_algo
                  (sint (pktlen - word_of_int minlen))")
    case (Inl e)
    then have "e = Source_Failed" by (rule symkeyenc_fields_fault)
    with Inl show ?thesis by (simp add: bnd_def)
  next
    case (Inr r)
    obtain k p' i' where r: "r = (k, p', i')" by (cases r)
    from symkeyenc_fields_counter [OF mode minlen_def enough assms Inr [unfolded r]]
    have "p' = 0" .
    with Inr r show ?thesis by (simp add: bnd_def leave_def)
  qed
  show ?thesis
  proof (cases "s2kmode = 0 \<or> s2kmode = 1 \<or> s2kmode = 4")
    case False
    then show ?thesis by (simp add: symkeyenc_s2k_def leave_def)
  next
    case mode: True
    show ?thesis
    proof (cases "pktlen < word_of_int minlen")
      case True
      with mode show ?thesis
        unfolding symkeyenc_s2k_def Let_def minlen_def [symmetric] by (auto simp: leave_def)
    next
      case False
      from tail [OF mode False] mode False show ?thesis
        unfolding symkeyenc_s2k_def Let_def minlen_def [symmetric] by (simp only: if_False split: if_split) auto
    qed
  qed
qed

lemma bnd_noeof_no_assert:
  "(\<And>b inp'. f (b, inp') \<noteq> Inl Assertion_Failed)
     \<Longrightarrow> bnd (iobuf_get_noeof inp) f \<noteq> Inl Assertion_Failed"
  by (cases "iobuf_get_noeof inp") (auto simp: bnd_def dest!: iobuf_get_noeof_fault)

text \<open>
  C10.  When the guards of \<^verbatim>\<open>parse_symkeyenc\<close> have passed (the mode is 0, 1 or 4, at most
  200 bytes remained after the version byte, the minimum length of the mode is not above
  what remains after the four fixed bytes), the counter \<^verbatim>\<open>pktlen\<close> is 0 after the salt, the
  count and the session key have been read.  So no run of \<^verbatim>\<open>parse_symkeyenc\<close> ends in
  the failure of \<^verbatim>\<open>assert( !pktlen )\<close>.
\<close>

theorem symkeyenc_assert_never_fails:
  "(\<forall>s2kmode minlen pktlen' inp1 version cipher_algo hash_algo k pktlen1 inp'.
       (s2kmode = 0 \<or> s2kmode = 1 \<or> s2kmode = 4)
       \<and> minlen = (if s2kmode = 0 then 0 else if s2kmode = 1 then 8 else (12 :: int))
       \<and> \<not> pktlen1 < word_of_int minlen \<and> pktlen1 \<le> 200
       \<and> symkeyenc_fields inp1 pktlen1 version cipher_algo s2kmode hash_algo
            (sint (pktlen1 - word_of_int minlen)) = Inr (k, pktlen', inp')
       \<longrightarrow> pktlen' = 0)
   \<and> parse_symkeyenc inp pkttype pktlen packet \<noteq> Inl Assertion_Failed"
proof (intro conjI allI impI)
  fix s2kmode minlen pktlen' inp1 version cipher_algo hash_algo k pktlen1 inp'
  assume "(s2kmode = 0 \<or> s2kmode = 1 \<or> s2kmode = 4)
       \<and> minlen = (if s2kmode = 0 then 0 else if s2kmode = 1 then 8 else (12 :: int))
       \<and> \<not> pktlen1 < word_of_int minlen \<and> pktlen1 \<le> 200
       \<and> symkeyenc_fields inp1 pktlen1 version cipher_algo s2kmode hash_algo
            (sint (pktlen1 - word_of_int minlen)) = Inr (k, pktlen', inp')"
  then show "pktlen' = 0" by (blast intro: symkeyenc_fields_counter)
next
  show "parse_symkeyenc inp pkttype pktlen packet \<noteq> Inl Assertion_Failed"
  proof (cases "pktlen < 4 \<or> 200 < pktlen - 1")
    case True
    then show ?thesis
      by (auto simp: parse_symkeyenc_unfold leave_def bnd_def
          split: sum.splits dest!: iobuf_get_noeof_fault)
  next
    case False
    then have small: "pktlen - 1 - 3 \<le> 200" by unat_arith
    have "bnd (iobuf_get_noeof inp) (\<lambda>(version, inp).
        if version \<noteq> 4 then leave inp (pktlen - 1) 0 packet
        else if 200 < pktlen - 1 then leave inp (pktlen - 1) 0 packet
        else
          bnd (iobuf_get_noeof inp) (\<lambda>(cipher_algo, inp).
          bnd (iobuf_get_noeof inp) (\<lambda>(s2kmode, inp).
          bnd (iobuf_get_noeof inp) (\<lambda>(hash_algo, inp).
          symkeyenc_s2k inp (pktlen - 1 - 3) version cipher_algo s2kmode hash_algo packet))))
        \<noteq> Inl Assertion_Failed"
    proof (rule bnd_noeof_no_assert)
      fix version inp1
      have "bnd (iobuf_get_noeof inp1) (\<lambda>(cipher_algo, inp).
              bnd (iobuf_get_noeof inp) (\<lambda>(s2kmode, inp).
              bnd (iobuf_get_noeof inp) (\<lambda>(hash_algo, inp).
              symkeyenc_s2k inp (pktlen - 1 - 3) v cipher_algo s2kmode hash_algo packet)))
            \<noteq> Inl Assertion_Failed" for v
        by (intro bnd_noeof_no_assert, simp only: prod.case,
            intro bnd_noeof_no_assert, simp only: prod.case,
            intro bnd_noeof_no_assert, simp only: prod.case,
            rule symkeyenc_s2k_no_assert [OF small])
      then show "(case (version, inp1) of
           (version, inp) \<Rightarrow>
             if version \<noteq> 4 then leave inp (pktlen - 1) 0 packet
             else if 200 < pktlen - 1 then leave inp (pktlen - 1) 0 packet
             else
               bnd (iobuf_get_noeof inp) (\<lambda>(cipher_algo, inp).
               bnd (iobuf_get_noeof inp) (\<lambda>(s2kmode, inp).
               bnd (iobuf_get_noeof inp) (\<lambda>(hash_algo, inp).
               symkeyenc_s2k inp (pktlen - 1 - 3) version cipher_algo s2kmode hash_algo packet))))
          \<noteq> Inl Assertion_Failed"
        by (simp add: leave_def)
    qed
    with False show ?thesis by (simp add: parse_symkeyenc_unfold)
  qed
qed

theorem symkeyenc_assert_never_fails_witness:
  "symkeyenc_fields (plain [1, 2, 3, 4, 5, 6, 7, 8, 0, 0, 1, 0, 0xAA, 0xBB]) 14 4 7 4 2
       (sint ((14 :: ulong) - word_of_int 12)) =
     Inr (\<lparr>sk_version = 4, sk_cipher_algo = 7,
           sk_s2k = \<lparr>s2k_mode = 4, s2k_hash_algo = 2,
                     s2k_salt = map Some [1, 2, 3, 4, 5, 6, 7, 8], s2k_count = 256\<rparr>,
           sk_seskeylen = 2, sk_seskey = [0xAA, 0xBB]\<rparr>,
          0, \<lparr>data = [], nbytes = 14, bmode = Plain\<rparr>)
   \<and> parse_symkeyenc (plain [4, 7, 4, 2, 1, 2, 3, 4, 5, 6, 7, 8, 0, 0, 1, 0, 0xAA, 0xBB]) 3 18
       init_packet \<noteq> Inl Assertion_Failed"
proof -
  have s: "sint ((14 :: ulong) - word_of_int 12) = 2" by simp
  have e: "\<exists>p. symkeyenc_fields (plain [1, 2, 3, 4, 5, 6, 7, 8, 0, 0, 1, 0, 0xAA, 0xBB]) 14 4 7 4 2
       (sint ((14 :: ulong) - word_of_int 12)) =
     Inr (\<lparr>sk_version = 4, sk_cipher_algo = 7,
           sk_s2k = \<lparr>s2k_mode = 4, s2k_hash_algo = 2,
                     s2k_salt = map Some [1, 2, 3, 4, 5, 6, 7, 8], s2k_count = 256\<rparr>,
           sk_seskeylen = 2, sk_seskey = [0xAA, 0xBB]\<rparr>,
          p, \<lparr>data = [], nbytes = 14, bmode = Plain\<rparr>)"
    by (simp add: s symkeyenc_fields_def read_32_def plain_reads store_def)
  then obtain p where p: "symkeyenc_fields (plain [1, 2, 3, 4, 5, 6, 7, 8, 0, 0, 1, 0, 0xAA, 0xBB]) 14 4 7 4 2
       (sint ((14 :: ulong) - word_of_int 12)) =
     Inr (\<lparr>sk_version = 4, sk_cipher_algo = 7,
           sk_s2k = \<lparr>s2k_mode = 4, s2k_hash_algo = 2,
                     s2k_salt = map Some [1, 2, 3, 4, 5, 6, 7, 8], s2k_count = 256\<rparr>,
           sk_seskeylen = 2, sk_seskey = [0xAA, 0xBB]\<rparr>,
          p, \<lparr>data = [], nbytes = 14, bmode = Plain\<rparr>)" ..
  have g: "((4 :: byte) = 0 \<or> (4 :: byte) = 1 \<or> (4 :: byte) = 4)
       \<and> (12 :: int) = (if (4 :: byte) = 0 then 0 else if (4 :: byte) = 1 then 8 else (12 :: int))
       \<and> \<not> (14 :: ulong) < word_of_int 12 \<and> (14 :: ulong) \<le> 200"
    by simp
  note t = symkeyenc_assert_never_fails
    [of "plain [4, 7, 4, 2, 1, 2, 3, 4, 5, 6, 7, 8, 0, 0, 1, 0, 0xAA, 0xBB]" 3 18 init_packet]
  from t [THEN conjunct1, rule_format, OF conjI [OF g [THEN conjunct1]
      conjI [OF g [THEN conjunct2, THEN conjunct1]
      conjI [OF g [THEN conjunct2, THEN conjunct2, THEN conjunct1]
      conjI [OF g [THEN conjunct2, THEN conjunct2, THEN conjunct2] p]]]]]
  have "p = 0" .
  with p t [THEN conjunct2] show ?thesis by simp
qed











section \<open>Evaluations on concrete streams\<close>

lemma read_length_plain:
  "bmode a = Plain \<Longrightarrow> k \<le> length (data a) \<Longrightarrow>
     read_length k pktlen hdr a =
       Inr (foldl (\<lambda>v b. push_bit 8 v OR ucast b) pktlen (take k (data a)),
            hdr @ take k (data a), a\<lparr>data := drop k (data a), nbytes := nbytes a + k\<rparr>)"
  by (rule read_length_get_n) (rule get_n_plain)

lemmas parse_defs = parse_def parse_header_def parse_body_def read_length_plain plain_reads
  iobuf_set_block_mode_def iobuf_set_partial_block_mode_def iobuf_tell_def
  skip_packet_def leave_def read_16_def read_32_def mpi_read_def read_mpi_def

text \<open>
  C5.  The claim: for a well-framed ring-trust packet \<^verbatim>\<open>parse_packet\<close> returns 0 and consumes
  exactly \<open>pktlen\<close> body bytes.  The \<^verbatim>\<open>switch\<close> of \<^verbatim>\<open>parse\<close> leaves \<^verbatim>\<open>rc\<close> at its default
  \<^verbatim>\<open>G10ERR_UNKNOWN_PACKET\<close> in the case \<^verbatim>\<open>PKT_RING_TRUST\<close> (every other case assigns the result
  of its parser), and \<^verbatim>\<open>parse_trust\<close> reads one byte and does not call \<^verbatim>\<open>skip_rest\<close>.  For
  the stream \<^verbatim>\<open>B0 01 07\<close> followed by a user id packet the result is the error code, not 0;
  for \<^verbatim>\<open>B0 02 07 08\<close> one of the two body bytes is left in the stream.
\<close>

theorem ring_trust_returns_unknown_packet:
  "parse_packet sample_macros (plain [0xB0, 0x01, 0x07, 0xB4, 0x01, 0x41]) init_packet =
     Inr (G10ERR_UNKNOWN_PACKET sample_macros,
          \<lparr>data = [0xB4, 0x01, 0x41], nbytes = 3, bmode = Plain\<rparr>,
          \<lparr>pkt_pkttype = PKT_RING_TRUST sample_macros, pkt_pkt = Generic_NULL\<rparr>)
   \<and> G10ERR_UNKNOWN_PACKET sample_macros \<noteq> 0
   \<and> parse_packet sample_macros (plain [0xB0, 0x02, 0x07, 0x08, 0xB4, 0x01, 0x41]) init_packet =
     Inr (G10ERR_UNKNOWN_PACKET sample_macros,
          \<lparr>data = [0x08, 0xB4, 0x01, 0x41], nbytes = 3, bmode = Plain\<rparr>,
          \<lparr>pkt_pkttype = PKT_RING_TRUST sample_macros, pkt_pkt = Generic_NULL\<rparr>)"
  by (simp add: parse_packet.simps parse_defs parse_trust_def sample_macros_def init_packet_def)

text \<open>
  C2.  The claim: for a first length byte \<open>b\<close> in 192..254 \<^verbatim>\<open>parse_sig_subpkt\<close> decodes the
  length \<open>(b - 192) * 256 + next + 192\<close>, consumes one more length byte, and examines as type
  the byte after the two-byte length.  The code computes that length and counts the byte
  off \<^verbatim>\<open>buflen\<close>, but does not advance \<^verbatim>\<open>buffer\<close> (the four-byte case has
  \<^verbatim>\<open>buffer += 4\<close>), so the byte it examines as type is the second length byte.  The area
  below holds one subpacket, of length \<^verbatim>\<open>C0 02\<close> = 194 and type 16 (issuer).  Asked for the
  issuer, the function returns \<^verbatim>\<open>NULL\<close>; asked for the creation time (type 2), it takes
  the length byte \<^verbatim>\<open>02\<close> for the type and returns a payload.
\<close>

theorem sig_subpkt_two_byte_length_type_byte:
  "parse_sig_subpkt (Some ([0x00, 0xC4, 0xC0, 0x02, 0x10] @ replicate 193 0xAA))
       SIGSUBPKT_ISSUER = Inr (None, None)
   \<and> parse_sig_subpkt (Some ([0x00, 0xC4, 0xC0, 0x02, 0x10] @ replicate 193 0xAA))
       SIGSUBPKT_SIG_CREATED = Inr (Some (0x10 # replicate 193 0xAA), Some 193)"
  by (simp add: parse_sig_subpkt_def subpkt_scan.simps subpkt_length_def
      SIGSUBPKT_ISSUER_def SIGSUBPKT_SIG_CREATED_def)

text \<open>
  C3.  The claim: for a subpacket area of length \<open>n\<close>, the signature record stores \<open>n + 2\<close>
  bytes that start with \<open>n >> 8\<close> and \<open>n mod 256\<close>.  The code assigns \<^verbatim>\<open>n << 8\<close> to the first
  byte, which is 0 for every \<open>n\<close>.  The signature below has a hashed area of 257 bytes
  (length bytes \<^verbatim>\<open>01 01\<close>) that starts with a creation-time subpacket
  \<^verbatim>\<open>05 02 5F 00 00 00\<close>.  The stored buffer starts \<^verbatim>\<open>00 01\<close>; \<^verbatim>\<open>parse_sig_subpkt\<close> then
  takes the area to be one byte long and the creation time is not found: the timestamp
  of the record stays 0.
\<close>

theorem hashed_data_length_prefix_high_byte:
  "parse_signature sample_macros
       (plain ([4, 0, 0, 2, 0x01, 0x01] @ [0x05, 0x02, 0x5F, 0, 0, 0] @ replicate 251 0
               @ [0, 0, 0xAB, 0xCD, 0, 0, 0]))
       2 270 signature_clear =
     Inr (0, \<lparr>data = [], nbytes = 270, bmode = Plain\<rparr>,
          \<lparr>sig_version = 4, sig_class = 0, sig_timestamp = 0, sig_keyid = (0, 0),
           sig_pubkey_algo = 0, sig_digest_algo = 2,
           hashed_data = Some ([0x00, 0x01] @ [0x05, 0x02, 0x5F, 0, 0, 0] @ replicate 251 0),
           unhashed_data = None, digest_start = (0xAB, 0xCD), sig_d = No_mpis\<rparr>)"
  by (simp add: parse_signature_def sig_fields_def sig_subpackets_def sig_area_def
      sig_extract_def sig_read_mpis_def iobuf_read_def parse_sig_subpkt_def subpkt_scan.simps
      subpkt_length_def parse_defs sample_macros_def signature_clear_def
      SIGSUBPKT_ISSUER_def SIGSUBPKT_SIG_CREATED_def)

text \<open>
  C4.  The claim: for a secret key certificate of any of the three algorithms with a
  nonzero protection algorithm byte, the 8 bytes of the IV are stored in the record.  The
  ElGamal and the DSA branch copy \<^verbatim>\<open>temp\<close> to \<^verbatim>\<open>cert->protect.iv\<close> unconditionally; the RSA
  branch does so only \<^verbatim>\<open>if( cert->protect.algo == CIPHER_ALGO_BLOWFISH160 )\<close>.  The stream
  below is a version 3 RSA secret key with protection algorithm 1 and the IV
  \<^verbatim>\<open>11 22 33 44 55 66 77 88\<close>.  It is parsed with result 0, the record is marked protected,
  and its IV is the eight zero bytes of \<^verbatim>\<open>m_alloc_clear\<close>.
\<close>

theorem rsa_secret_key_iv_not_stored:
  "parse sample_macros
       (plain ([0x94, 0x25, 3, 0, 0, 0, 9, 0, 0, 1, 0, 1, 1, 0, 1, 1, 1,
                0x11, 0x22, 0x33, 0x44, 0x55, 0x66, 0x77, 0x88,
                0, 1, 1, 0, 1, 1, 0, 1, 1, 0, 1, 1, 0, 4]))
       init_packet 0 False None False =
     Inr (0, False, \<lparr>data = [], nbytes = 39, bmode = Plain\<rparr>,
          \<lparr>pkt_pkttype = PKT_SECRET_CERT sample_macros,
           pkt_pkt = Secret_cert
             \<lparr>sc_timestamp = 9, sc_valid_days = 0, sc_hdrbytes = 2, sc_version = 3,
              sc_pubkey_algo = 1, is_protected = True, protect_algo = 1,
              protect_s2k = s2k_clear, protect_iv = replicate 8 (Some 0),
              sc_d = Rsa_ne (1, [1]) (1, [1]),
              sc_x = Rsa_dpqu (1, [1]) (1, [1]) (1, [1]) (1, [1]), csum = 4\<rparr>\<rparr>,
          None, None)"
  by (simp add: parse_defs parse_certificate_def cert_header_def cert_rsa_def
      cert_protect_rsa_def upd_secret_def upd_public_def the_secret_def store_def
      sample_macros_def init_packet_def secret_cert_clear_def s2k_clear_def)

section \<open>Copying packets\<close>

text \<open>
  The framing of packets as section 4.4 of the specification words it, written without
  \<^verbatim>\<open>parse_header\<close>.  A packet starts with a byte \<open>ctb\<close> whose high bit is set; bit 6 selects
  the format.  Legacy format: the type is \<open>(ctb >> 2) & 0xF\<close>, the length field has
  \<open>1 << (ctb & 3)\<close> bytes and holds a big-endian length, and \<open>ctb & 3 = 3\<close> means a body of
  indeterminate length.  New format: the type is \<open>ctb & 0x3F\<close>; a length byte \<open>c\<close> below 192
  is the length, a byte in 192..223 with a second byte \<open>d\<close> gives
  \<open>(c - 192) * 256 + d + 192\<close>, the byte 255 is followed by a length of four bytes, and a
  byte in 224..254 opens a body in chunks, the first of \<open>2 ^ (c - 224)\<close> bytes.
\<close>

datatype extent = Sized nat | Sized_five nat | Open_ended | Chunked nat

definition new_length :: "byte \<Rightarrow> byte list \<Rightarrow> (extent \<times> byte list) option" where
  "new_length c r =
     (if c < 192 then Some (Sized (unat c), r)
      else if c < 224 then
        (case r of
           [] \<Rightarrow> None
         | d # r \<Rightarrow> Some (Sized ((unat c - 192) * 256 + unat d + 192), r))
      else if c = 255 then
        (if length r < 4 then None else Some (Sized_five (be_nat (take 4 r)), drop 4 r))
      else Some (Chunked (2 ^ (unat c - 224)), r))"

definition spec_header :: "byte list \<Rightarrow> (int \<times> extent \<times> byte list) option" where
  "spec_header bs = (case bs of
      [] \<Rightarrow> None
    | ctb # r \<Rightarrow>
        if ctb AND 0x80 = 0 then None
        else if ctb AND 0x40 \<noteq> 0 then
          (case r of
             [] \<Rightarrow> None
           | c # r \<Rightarrow>
               (case new_length c r of
                  None \<Rightarrow> None
                | Some (e, r) \<Rightarrow> Some (uint (ctb AND 0x3F), e, r)))
        else if ctb AND 3 = 3 then Some (uint (drop_bit 2 ctb AND 0xF), Open_ended, r)
        else
          (let size = 2 ^ unat (ctb AND 3) in
           if length r < size then None
           else Some (uint (drop_bit 2 ctb AND 0xF), Sized (be_nat (take size r)), drop size r)))"

text \<open>
  A body in chunks (section 4.1 of the specification): after a chunk of \<open>n\<close> bytes comes a
  length byte; one in 224..254 opens the next chunk, any other one the final chunk, of a
  definite length.  The result is what follows the body.
\<close>

lemma new_length_le:
  "new_length c r = Some (e, r') \<Longrightarrow> length r' \<le> length r"
  by (auto simp: new_length_def split: if_splits list.splits)

function chunked_rest :: "nat \<Rightarrow> byte list \<Rightarrow> byte list option" where
  "chunked_rest n bs =
     (if length bs < n then None
      else
        (case drop n bs of
           [] \<Rightarrow> None
         | c # r \<Rightarrow>
             (case new_length c r of
                None \<Rightarrow> None
              | Some (Sized m, r') \<Rightarrow> if m \<le> length r' then Some (drop m r') else None
              | Some (Sized_five m, r') \<Rightarrow> if m \<le> length r' then Some (drop m r') else None
              | Some (Open_ended, r') \<Rightarrow> None
              | Some (Chunked m, r') \<Rightarrow> chunked_rest m r')))"
  by pat_completeness auto
termination
proof (relation "measure (\<lambda>(n, bs). length bs)", goal_cases)
  case 1
  show ?case by simp
next
  case (2 n bs c r x e r' m)
  then have "new_length c r = Some (e, r')" by simp
  then have "length r' \<le> length r" by (rule new_length_le)
  moreover from 2 have "length (drop n bs) = Suc (length r)" by simp
  ultimately show ?case by simp
qed

declare chunked_rest.simps [simp del]

lemma chunked_rest_shorter:
  "chunked_rest n bs = Some r \<Longrightarrow> length r < length bs"
proof (induction n bs rule: chunked_rest.induct)
  case (1 n bs)
  from "1.prems" obtain c r0 where d: "drop n bs = c # r0" and n: "\<not> length bs < n"
    by (subst (asm) chunked_rest.simps) (auto split: if_splits list.splits)
  from d have l: "length r0 < length bs"
    using length_drop [of n bs] by simp
  from "1.prems" d n obtain e r' where nl: "new_length c r0 = Some (e, r')"
    by (subst (asm) chunked_rest.simps) (auto split: option.splits)
  from new_length_le [OF nl] l have l': "length r' < length bs" by simp
  show ?case
  proof (cases e)
    case (Chunked m)
    with "1.prems" d n nl have "chunked_rest m r' = Some r"
      by (subst (asm) chunked_rest.simps) simp
    from "1.IH" [OF n d nl refl Chunked this] l' show ?thesis by simp
  next
    case (Sized m)
    with "1.prems" d n nl have "r = drop m r'"
      by (subst (asm) chunked_rest.simps) (auto split: if_splits)
    with l' show ?thesis by simp
  next
    case (Sized_five m)
    with "1.prems" d n nl have "r = drop m r'"
      by (subst (asm) chunked_rest.simps) (auto split: if_splits)
    with l' show ?thesis by simp
  next
    case Open_ended
    with "1.prems" d n nl show ?thesis
      by (subst (asm) chunked_rest.simps) simp
  qed
qed

lemma spec_header_shorter:
  "spec_header bs = Some (t, e, r) \<Longrightarrow> length r < length bs"
  by (auto simp: spec_header_def Let_def split: list.splits if_splits option.splits
      dest!: new_length_le)

text \<open>
  A stream of well-formed packets with nonzero types, each body complete; \<open>ok\<close> says which
  length forms may occur.  A body of indeterminate length runs to the end of the stream.
\<close>

function packets :: "(extent \<Rightarrow> bool) \<Rightarrow> byte list \<Rightarrow> bool" where
  "packets ok bs =
     (bs = [] \<or>
      (case spec_header bs of
         None \<Rightarrow> False
       | Some (t, e, r) \<Rightarrow>
           t \<noteq> 0 \<and> ok e \<and>
           (case e of
              Sized n \<Rightarrow> n \<le> length r \<and> packets ok (drop n r)
            | Sized_five n \<Rightarrow> n \<le> length r \<and> packets ok (drop n r)
            | Open_ended \<Rightarrow> True
            | Chunked n \<Rightarrow>
                (case chunked_rest n r of
                   None \<Rightarrow> False
                 | Some r' \<Rightarrow> packets ok r'))))"
  by pat_completeness auto
termination
proof (relation "measure (\<lambda>(ok, bs). length bs)", goal_cases)
  case 1
  show ?case by simp
next
  case (2 ok bs x t y e r n)
  then have "spec_header bs = Some (t, e, r)" by simp
  from spec_header_shorter [OF this] show ?case by simp
next
  case (3 ok bs x t y e r n)
  then have "spec_header bs = Some (t, e, r)" by simp
  from spec_header_shorter [OF this] show ?case by simp
next
  case (4 ok bs x t y e r n r')
  then have "spec_header bs = Some (t, e, r)" and "chunked_rest n r = Some r'" by simp_all
  from spec_header_shorter [OF this(1)] chunked_rest_shorter [OF this(2)] show ?case by simp
qed

declare packets.simps [simp del]

text \<open>The length forms other than the five-byte length and the body in chunks.\<close>

definition plain_extent :: "extent \<Rightarrow> bool" where
  "plain_extent e = (case e of Sized n \<Rightarrow> True | Open_ended \<Rightarrow> True | _ \<Rightarrow> False)"

text \<open>
  The results of the first \<open>n\<close> calls of \<^verbatim>\<open>parse_packet\<close> in a loop that gives every call a
  fresh packet and stops at the first result that is not 0.
\<close>

fun parse_packets :: "macros \<Rightarrow> nat \<Rightarrow> iobuf \<Rightarrow> (fault + int \<times> PACKET) list" where
  "parse_packets K 0 inp = []"
| "parse_packets K (Suc n) inp = (case parse_packet K inp init_packet of
      Inl e \<Rightarrow> [Inl e]
    | Inr (rc, inp', pkt) \<Rightarrow> Inr (rc, pkt) # (if rc = 0 then parse_packets K n inp' else []))"


text \<open>
  \<^verbatim>\<open>copy_all_packets\<close> from the start of a stream into an empty sink that takes every write,
  and then the parsing loop over what was written: the result of the copy and the results
  of the loop.
\<close>

definition copy_then_parse ::
  "macros \<Rightarrow> nat \<Rightarrow> byte list \<Rightarrow> fault + int \<times> (fault + int \<times> PACKET) list" where
  "copy_then_parse K n bs =
     (case copy_all_packets K (plain bs) \<lparr>written = [], room = None\<rparr> of
        Inl e \<Rightarrow> Inl e
      | Inr (rc, inp', out) \<Rightarrow> Inr (rc, parse_packets K n (plain (written out))))"

lemma iobuf_get_raw:
  "bmode a = Plain \<or> bmode a = Block \<Longrightarrow> iobuf_get a = (case data a of
      [] \<Rightarrow> (None, a\<lparr>bmode := Plain\<rparr>)
    | b # bs \<Rightarrow> (Some b, a\<lparr>data := bs, nbytes := Suc (nbytes a)\<rparr>))"
  by (auto simp: iobuf_get_def raw_get_def split: list.splits)

lemma get_upto_raw:
  "bmode a = Plain \<or> bmode a = Block \<Longrightarrow>
     get_upto n a =
       (take n (data a), a\<lparr>data := drop n (data a), nbytes := nbytes a + min n (length (data a))\<rparr>)"
proof (induction n arbitrary: a)
  case 0
  then show ?case by simp
next
  case (Suc n)
  show ?case
  proof (cases "data a")
    case Nil
    with Suc.prems show ?thesis by (simp add: iobuf_get_raw)
  next
    case (Cons b bs)
    let ?a = "a\<lparr>data := bs, nbytes := Suc (nbytes a)\<rparr>"
    from Suc.prems have "bmode ?a = Plain \<or> bmode ?a = Block" by simp
    from Suc.IH [OF this] Suc.prems Cons show ?thesis by (simp add: iobuf_get_raw)
  qed
qed

lemma iobuf_read_raw:
  assumes "bmode a = Plain \<or> bmode a = Block" and "0 < n"
  shows "iobuf_read a n =
     (if data a = [] then (- 1, [], a\<lparr>bmode := Plain\<rparr>)
      else (int (min n (length (data a))), take n (data a),
            a\<lparr>data := drop n (data a), nbytes := nbytes a + min n (length (data a))\<rparr>))"
  using assms by (auto simp: iobuf_read_def get_upto_raw iobuf_get_raw)

lemma iobuf_write_unbounded:
  "room out = None \<Longrightarrow> iobuf_write out bs = (0, out\<lparr>written := written out @ bs\<rparr>)"
  by (simp add: iobuf_write_def)

lemma copy_to_eof_raw:
  "bmode inp = Plain \<or> bmode inp = Block \<Longrightarrow> room out = None \<Longrightarrow>
     copy_to_eof K inp out =
       (0, inp\<lparr>data := [], nbytes := nbytes inp + length (data inp), bmode := Plain\<rparr>,
        out\<lparr>written := written out @ data inp\<rparr>)"
proof (induction "length (data inp)" arbitrary: inp out rule: less_induct)
  case less
  show ?case
  proof (cases "data inp = []")
    case True
    with less.prems show ?thesis
      by (subst copy_to_eof.simps) (simp add: iobuf_read_raw)
  next
    case False
    let ?m = "min 100 (length (data inp))"
    let ?inp = "inp\<lparr>data := drop 100 (data inp), nbytes := nbytes inp + ?m\<rparr>"
    let ?out = "out\<lparr>written := written out @ take 100 (data inp)\<rparr>"
    from False have "length (data ?inp) < length (data inp)" by simp
    moreover from less.prems have "bmode ?inp = Plain \<or> bmode ?inp = Block" "room ?out = None"
      by simp_all
    ultimately have ih: "copy_to_eof K ?inp ?out =
       (0, ?inp\<lparr>data := [], nbytes := nbytes ?inp + length (data ?inp), bmode := Plain\<rparr>,
        ?out\<lparr>written := written ?out @ data ?inp\<rparr>)"
      by (rule less.hyps)
    have "copy_to_eof K inp out = copy_to_eof K ?inp ?out"
      using False less.prems
      by (subst copy_to_eof.simps) (simp add: iobuf_read_raw iobuf_write_unbounded)
    with ih show ?thesis by (simp add: min_def)
  qed
qed

lemma copy_counted_plain:
  "bmode inp = Plain \<Longrightarrow> unat pktlen \<le> length (data inp) \<Longrightarrow> room out = None \<Longrightarrow>
     copy_counted K inp out pktlen =
       (0, inp\<lparr>data := drop (unat pktlen) (data inp), nbytes := nbytes inp + unat pktlen\<rparr>,
        out\<lparr>written := written out @ take (unat pktlen) (data inp)\<rparr>)"
proof (induction "unat pktlen" arbitrary: inp out pktlen rule: less_induct)
  case less
  show ?case
  proof (cases "pktlen = 0")
    case True
    then show ?thesis by (subst copy_counted.simps) simp
  next
    case False
    define m where "m = (if 100 < pktlen then 100 else unat pktlen)"
    from False have pos: "0 < unat pktlen" by (simp add: unat_gt_0)
    have m: "0 < m" "m \<le> unat pktlen" "m \<le> 100"
      using pos by (auto simp: m_def word_less_nat_alt)
    with less.prems have ml: "m \<le> length (data inp)" "data inp \<noteq> []" by auto
    let ?inp = "inp\<lparr>data := drop m (data inp), nbytes := nbytes inp + m\<rparr>"
    let ?out = "out\<lparr>written := written out @ take m (data inp)\<rparr>"
    have wm: "unat (word_of_int (int m) :: ulong) = m"
      using m by (simp add: unat_of_nat)
    then have u: "unat (pktlen - word_of_int (int m)) = unat pktlen - m"
      using m by (simp add: unat_sub word_le_nat_alt)
    have step: "copy_counted K inp out pktlen =
        copy_counted K ?inp ?out (pktlen - word_of_int (int m))"
      using False less.prems m ml
      by (subst copy_counted.simps)
         (simp add: m_def [symmetric] iobuf_read_raw iobuf_write_unbounded min_def)
    from u m pos have "unat (pktlen - word_of_int (int m)) < unat pktlen" by simp
    moreover from less.prems have "bmode ?inp = Plain" by simp
    moreover from less.prems u m have "unat (pktlen - word_of_int (int m)) \<le> length (data ?inp)"
      by simp
    moreover from less.prems have "room ?out = None" by simp
    ultimately have "copy_counted K ?inp ?out (pktlen - word_of_int (int m)) =
       (0, ?inp\<lparr>data := drop (unat (pktlen - word_of_int (int m))) (data ?inp),
                nbytes := nbytes ?inp + unat (pktlen - word_of_int (int m))\<rparr>,
        ?out\<lparr>written := written ?out
                  @ take (unat (pktlen - word_of_int (int m))) (data ?inp)\<rparr>)"
      by (rule less.hyps)
    moreover from m have "take m (data inp) @ take (unat pktlen - m) (drop m (data inp))
        = take (unat pktlen) (data inp)"
      by (metis le_add_diff_inverse take_add)
    ultimately show ?thesis using step u m by (simp add: add.commute)
  qed
qed

lemma parse_copy_step:
  assumes "parse_header K inp = Inr (Header t len hdr, inp')" and "t \<noteq> 0" and "room out = None"
  shows "parse K inp init_packet 0 False (Some out) False =
     (case copy_packet K inp' (out\<lparr>written := written out @ hdr\<rparr>) t len of
        (rc, inp2, out2) \<Rightarrow> Inr (rc, False, inp2, init_packet, None, Some out2))"
  using assms by (simp add: parse_def bnd_def init_packet_def iobuf_write_unbounded)

lemma copy_all_packets_at_end:
  "bmode inp = Plain \<Longrightarrow> data inp = [] \<Longrightarrow> copy_all_packets K inp out = Inr (- 1, inp, out)"
  by (subst copy_all_packets.simps)
     (simp add: parse_def parse_header_def iobuf_get_plain bnd_def init_packet_def sink_after_def)

text \<open>The header decoder of the code on the length forms that \<open>plain_extent\<close> admits.\<close>

lemma unat_ucast_byte: "unat (ucast (b :: byte) :: ulong) = unat b"
proof -
  have "unat b < 2 ^ 32" using unsigned_less [of b, where 'a = nat] by simp
  then show ?thesis by (simp add: unsigned_ucast_eq take_bit_nat_eq_self)
qed

lemma two_byte_length:
  fixes c d :: byte
  assumes "192 \<le> c"
  shows "unat ((ucast c - 192) * 256 + (ucast d + 192) :: ulong) =
           (unat c - 192) * 256 + unat d + 192"
proof -
  have c: "unat c < 256" and d: "unat d < 256"
    using unsigned_less [of c, where 'a = nat] unsigned_less [of d, where 'a = nat] by simp_all
  from assms have ge: "192 \<le> unat c" by (simp add: word_le_nat_alt)
  then have "(192 :: ulong) \<le> ucast c" by (simp add: word_le_nat_alt unat_ucast_byte)
  then have s: "unat (ucast c - 192 :: ulong) = unat c - 192"
    by (simp add: unat_sub unat_ucast_byte)
  have m: "unat ((ucast c - 192) * 256 :: ulong) = (unat c - 192) * 256"
  proof -
    from c have "unat (ucast c - 192 :: ulong) * unat (256 :: ulong) < 2 ^ LENGTH(32)"
      by (simp add: s)
    then have "unat ((ucast c - 192) * 256 :: ulong) = unat (ucast c - 192 :: ulong) * unat (256 :: ulong)"
      by (simp only: unat_mult_lem)
    then show ?thesis by (simp only: s) simp
  qed
  have p: "unat (ucast d + 192 :: ulong) = unat d + 192"
  proof -
    from d have "unat (ucast d :: ulong) + unat (192 :: ulong) < 2 ^ LENGTH(32)"
      by (simp add: unat_ucast_byte)
    then have "unat (ucast d + 192 :: ulong) = unat (ucast d :: ulong) + unat (192 :: ulong)"
      by (simp only: unat_add_lem)
    then show ?thesis by (simp only: unat_ucast_byte) simp
  qed
  from c d have "unat ((ucast c - 192) * 256 :: ulong) + unat (ucast d + 192 :: ulong)
      < 2 ^ LENGTH(32)"
    by (simp only: m p) simp
  then have "unat ((ucast c - 192) * 256 + (ucast d + 192) :: ulong) =
      unat ((ucast c - 192) * 256 :: ulong) + unat (ucast d + 192 :: ulong)"
    by (simp only: unat_add_lem)
  then show ?thesis by (simp only: m p)
qed

lemma legacy_size:
  fixes ctb :: byte
  assumes "ctb AND 3 \<noteq> 3"
  shows "(2 :: nat) ^ unat (ctb AND 3) \<le> 4 \<and> (2 :: nat) ^ unat (ctb AND 3) \<noteq> 0"
proof -
  have "ctb AND 3 \<le> 3" by (rule word_and_le1)
  then have "unat (ctb AND 3) \<le> 3" by (simp add: word_le_nat_alt)
  moreover have "unat (ctb AND 3) = 3 \<longleftrightarrow> ctb AND 3 = 3"
    by (simp add: word_unat_eq_iff [of "ctb AND 3" 3])
  ultimately have "unat (ctb AND 3) \<le> 2" using assms by simp
  then have "(2 :: nat) ^ unat (ctb AND 3) \<le> 2 ^ 2" by (intro power_increasing) simp_all
  then show ?thesis by simp
qed

lemma parse_header_sized:
  assumes plain: "bmode a = Plain" and sh: "spec_header (data a) = Some (t, Sized n, r)"
  shows "\<exists>len hdr. parse_header K a =
            Inr (Header t len hdr, a\<lparr>data := r, nbytes := nbytes a + length hdr\<rparr>)
          \<and> unat len = n \<and> data a = hdr @ r"
proof -
  from sh obtain ctb r0 where d: "data a = ctb # r0" and hi: "ctb AND 0x80 \<noteq> 0"
    by (auto simp: spec_header_def split: list.splits if_splits)
  let ?a1 = "a\<lparr>data := r0, nbytes := Suc (nbytes a)\<rparr>"
  show ?thesis
  proof (cases "ctb AND 0x40 \<noteq> 0")
    case True
    with sh d hi obtain c r1 where r0: "r0 = c # r1"
      and nl: "new_length c r1 = Some (Sized n, r)" and t: "t = uint (ctb AND 0x3F)"
      by (auto simp: spec_header_def split: list.splits option.splits)
    show ?thesis
    proof (cases "c < 192")
      case c: True
      with nl have "n = unat c" "r = r1" by (simp_all add: new_length_def)
      with plain d hi True r0 c t show ?thesis
        by (simp add: parse_header_def iobuf_get_plain Let_def unat_ucast_byte)
    next
      case c: False
      with nl obtain dd where r1: "r1 = dd # r" and c': "c < 224"
        and n: "n = (unat c - 192) * 256 + unat dd + 192"
        by (auto simp: new_length_def split: if_splits list.splits)
      from c have "192 \<le> c" by simp
      from two_byte_length [OF this, of dd] plain d hi True r0 c c' r1 n t show ?thesis
        by (simp add: parse_header_def iobuf_get_plain Let_def)
    qed
  next
    case False
    let ?size = "(2 :: nat) ^ unat (ctb AND 3)"
    from sh d hi False have nz: "ctb AND 3 \<noteq> 3" and len: "?size \<le> length r0"
      and n: "n = be_nat (take ?size r0)" and r: "r = drop ?size r0"
      and t: "t = uint (drop_bit 2 ctb AND 0xF)"
      by (auto simp: spec_header_def Let_def split: if_splits)
    from legacy_size [OF nz] have sz: "?size \<le> 4" "?size \<noteq> 0" by simp_all
    from plain have p1: "bmode ?a1 = Plain" by simp
    from len have l1: "?size \<le> length (data ?a1)" by simp
    have "length (take ?size r0) \<le> 4" using sz by simp
    from big_endian_fold [OF this]
    have v: "unat (foldl (\<lambda>v b. push_bit 8 v OR ucast b) (0 :: ulong) (take ?size r0)) = n"
      using n by simp
    from read_length_plain [OF p1 l1, of 0 "[ctb]"] plain d hi False nz sz t r len
    have "parse_header K a =
        Inr (Header t (foldl (\<lambda>v b. push_bit 8 v OR ucast b) (0 :: ulong) (take ?size r0))
               (ctb # take ?size r0),
             a\<lparr>data := r, nbytes := nbytes a + length (ctb # take ?size r0)\<rparr>)"
      by (simp add: parse_header_def iobuf_get_plain Let_def bnd_def min_def)
    with v d r show ?thesis by auto
  qed
qed

lemma parse_header_open_ended:
  assumes plain: "bmode a = Plain" and sh: "spec_header (data a) = Some (t, Open_ended, r)"
  shows "\<exists>hdr. parse_header K a =
            Inr (Header t 0 hdr,
                 a\<lparr>data := r, nbytes := nbytes a + length hdr,
                   bmode := (if t \<noteq> PKT_COMPRESSED K then Block else Plain)\<rparr>)
          \<and> data a = hdr @ r"
proof -
  from sh obtain ctb where d: "data a = ctb # r" and hi: "ctb AND 0x80 \<noteq> 0"
    and lo: "ctb AND 0x40 = 0" and three: "ctb AND 3 = 3"
    and t: "t = uint (drop_bit 2 ctb AND 0xF)"
    by (auto simp: spec_header_def new_length_def Let_def
        split: list.splits if_splits option.splits)
  with plain show ?thesis
    by (auto simp: parse_header_def iobuf_get_plain Let_def iobuf_set_block_mode_def
        intro!: iobuf.equality)
qed

lemma copy_all_packets_to_eof:
  assumes ph: "parse_header K inp = Inr (Header t len hdr, inp')" and t: "t \<noteq> 0"
    and room: "room out = None"
    and raw: "bmode inp' = Plain \<or> bmode inp' = Block"
    and eof: "bmode inp' \<noteq> Plain \<or> len = 0 \<and> t = PKT_COMPRESSED K"
  shows "copy_all_packets K inp out =
     Inr (- 1, inp'\<lparr>data := [], nbytes := nbytes inp' + length (data inp'), bmode := Plain\<rparr>,
          out\<lparr>written := written out @ hdr @ data inp'\<rparr>)"
proof -
  let ?out = "out\<lparr>written := written out @ hdr\<rparr>"
  let ?inp2 = "inp'\<lparr>data := [], nbytes := nbytes inp' + length (data inp'), bmode := Plain\<rparr>"
  let ?out2 = "?out\<lparr>written := written ?out @ data inp'\<rparr>"
  from room have room': "room ?out = None" by simp
  from eof have "copy_packet K inp' ?out t len = copy_to_eof K inp' ?out"
    by (auto simp: copy_packet_def iobuf_in_block_mode_def)
  with copy_to_eof_raw [OF raw room', of K]
  have cp: "copy_packet K inp' ?out t len = (0, ?inp2, ?out2)" by simp
  have "copy_all_packets K inp out = copy_all_packets K ?inp2 ?out2"
    by (subst copy_all_packets.simps)
       (simp add: parse_copy_step [OF ph t room] cp sink_after_def)
  also have "\<dots> = Inr (- 1, ?inp2, ?out2)"
    by (rule copy_all_packets_at_end) simp_all
  finally show ?thesis by simp
qed

lemma copy_all_packets_counted:
  assumes ph: "parse_header K inp = Inr (Header t len hdr, inp')" and t: "t \<noteq> 0"
    and room: "room out = None"
    and plain: "bmode inp' = Plain" and len: "unat len \<le> length (data inp')"
    and counted: "\<not> (len = 0 \<and> t = PKT_COMPRESSED K)"
  shows "copy_all_packets K inp out =
     copy_all_packets K
       (inp'\<lparr>data := drop (unat len) (data inp'), nbytes := nbytes inp' + unat len\<rparr>)
       (out\<lparr>written := written out @ hdr @ take (unat len) (data inp')\<rparr>)"
proof -
  let ?out = "out\<lparr>written := written out @ hdr\<rparr>"
  let ?inp2 = "inp'\<lparr>data := drop (unat len) (data inp'), nbytes := nbytes inp' + unat len\<rparr>"
  let ?out2 = "?out\<lparr>written := written ?out @ take (unat len) (data inp')\<rparr>"
  from room have room': "room ?out = None" by simp
  from plain counted have "copy_packet K inp' ?out t len = copy_counted K inp' ?out len"
    by (auto simp: copy_packet_def iobuf_in_block_mode_def)
  with copy_counted_plain [OF plain len room', of K]
  have cp: "copy_packet K inp' ?out t len = (0, ?inp2, ?out2)" by simp
  have "copy_all_packets K inp out = copy_all_packets K ?inp2 ?out2"
    by (subst copy_all_packets.simps)
       (simp add: parse_copy_step [OF ph t room] cp sink_after_def)
  then show ?thesis by simp
qed

lemma copy_all_packets_plain_extent:
  "packets plain_extent (data inp) \<Longrightarrow> bmode inp = Plain \<Longrightarrow> room out = None \<Longrightarrow>
     copy_all_packets K inp out =
       Inr (- 1, inp\<lparr>data := [], nbytes := nbytes inp + length (data inp)\<rparr>,
            out\<lparr>written := written out @ data inp\<rparr>)"
proof (induction "length (data inp)" arbitrary: inp out rule: less_induct)
  case less
  note plain = less.prems(2) and room = less.prems(3)
  show ?case
  proof (cases "data inp = []")
    case True
    with plain show ?thesis by (simp add: copy_all_packets_at_end)
  next
    case False
    from False less.prems(1) [unfolded packets.simps [of plain_extent "data inp"]]
    obtain t e r where sh: "spec_header (data inp) = Some (t, e, r)"
      and t: "t \<noteq> 0" and ok: "plain_extent e"
      and c: "case e of Sized n \<Rightarrow> n \<le> length r \<and> packets plain_extent (drop n r)
              | Sized_five n \<Rightarrow> n \<le> length r \<and> packets plain_extent (drop n r)
              | Open_ended \<Rightarrow> True
              | Chunked n \<Rightarrow> (case chunked_rest n r of None \<Rightarrow> False
                               | Some r' \<Rightarrow> packets plain_extent r')"
      by (cases "spec_header (data inp)") auto
    from c have body: "\<forall>n. e = Sized n \<longrightarrow> n \<le> length r \<and> packets plain_extent (drop n r)"
      by auto
    from spec_header_shorter [OF sh] have shorter: "length r < length (data inp)" .
    from ok consider n where "e = Sized n" | "e = Open_ended"
      by (cases e) (simp_all add: plain_extent_def)
    then show ?thesis
    proof cases
      case 1
      with body have n: "n \<le> length r" and rest: "packets plain_extent (drop n r)" by simp_all
      from parse_header_sized [OF plain sh [unfolded 1], of K] obtain len hdr where
        ph: "parse_header K inp =
               Inr (Header t len hdr, inp\<lparr>data := r, nbytes := nbytes inp + length hdr\<rparr>)"
        and len: "unat len = n" and d: "data inp = hdr @ r"
        by blast
      let ?inp' = "inp\<lparr>data := r, nbytes := nbytes inp + length hdr\<rparr>"
      from plain have p': "bmode ?inp' = Plain" by simp
      show ?thesis
      proof (cases "len = 0 \<and> t = PKT_COMPRESSED K")
        case True
        from p' have "bmode ?inp' = Plain \<or> bmode ?inp' = Block" by simp
        moreover from True have "bmode ?inp' \<noteq> Plain \<or> len = 0 \<and> t = PKT_COMPRESSED K" by simp
        ultimately have "copy_all_packets K inp out =
            Inr (- 1, ?inp'\<lparr>data := [], nbytes := nbytes ?inp' + length (data ?inp'),
                          bmode := Plain\<rparr>,
                 out\<lparr>written := written out @ hdr @ data ?inp'\<rparr>)"
          by (rule copy_all_packets_to_eof [OF ph t room])
        with d plain show ?thesis by (auto intro!: iobuf.equality)
      next
        case False
        let ?inp2 = "?inp'\<lparr>data := drop (unat len) (data ?inp'),
                           nbytes := nbytes ?inp' + unat len\<rparr>"
        let ?out2 = "out\<lparr>written := written out @ hdr @ take (unat len) (data ?inp')\<rparr>"
        from n len have l: "unat len \<le> length (data ?inp')" by simp
        from copy_all_packets_counted [OF ph t room p' l False]
        have "copy_all_packets K inp out = copy_all_packets K ?inp2 ?out2" .
        moreover from shorter have "length (data ?inp2) < length (data inp)" by simp
        moreover from rest len have "packets plain_extent (data ?inp2)" by simp
        moreover from plain have "bmode ?inp2 = Plain" by simp
        moreover from room have "room ?out2 = None" by simp
        ultimately have "copy_all_packets K inp out =
            Inr (- 1, ?inp2\<lparr>data := [], nbytes := nbytes ?inp2 + length (data ?inp2)\<rparr>,
                 ?out2\<lparr>written := written ?out2 @ data ?inp2\<rparr>)"
          using less.hyps by simp
        with d n len show ?thesis by (auto intro!: iobuf.equality)
      qed
    next
      case 2
      from parse_header_open_ended [OF plain sh [unfolded 2], of K] obtain hdr where
        ph: "parse_header K inp =
               Inr (Header t 0 hdr,
                    inp\<lparr>data := r, nbytes := nbytes inp + length hdr,
                        bmode := (if t \<noteq> PKT_COMPRESSED K then Block else Plain)\<rparr>)"
        and d: "data inp = hdr @ r"
        by blast
      let ?inp' = "inp\<lparr>data := r, nbytes := nbytes inp + length hdr,
                        bmode := (if t \<noteq> PKT_COMPRESSED K then Block else Plain)\<rparr>"
      have "bmode ?inp' = Plain \<or> bmode ?inp' = Block" by simp
      moreover have "bmode ?inp' \<noteq> Plain \<or> (0 :: ulong) = 0 \<and> t = PKT_COMPRESSED K" by simp
      ultimately have "copy_all_packets K inp out =
          Inr (- 1, ?inp'\<lparr>data := [], nbytes := nbytes ?inp' + length (data ?inp'),
                        bmode := Plain\<rparr>,
               out\<lparr>written := written out @ hdr @ data ?inp'\<rparr>)"
        by (rule copy_all_packets_to_eof [OF ph t room])
      with d plain show ?thesis by (auto intro!: iobuf.equality)
    qed
  qed
qed

text \<open>
  On the length forms other than the five-byte length and the body in chunks the copy is
  the identity.  For every stream of well-formed packets with nonzero types whose lengths
  are legacy lengths (of one, two or four bytes, or indeterminate) or new-format lengths of
  one or two bytes, each body complete, \<^verbatim>\<open>copy_all_packets\<close> ends with \<open>-1\<close> at the end of the
  input and has written the input byte for byte, so the parsing loop over what was written
  gives the results and the packet records of the loop over the input.
\<close>

lemma copy_then_parse_plain_extent:
  assumes "packets plain_extent bs"
  shows "copy_then_parse K n bs = Inr (- 1, parse_packets K n (plain bs))"
proof -
  from assms have "packets plain_extent (data (plain bs))" by (simp add: plain_def)
  moreover have "bmode (plain bs) = Plain" by (simp add: plain_def)
  moreover have "room \<lparr>written = [], room = None\<rparr> = None" by simp
  ultimately have "copy_all_packets K (plain bs) \<lparr>written = [], room = None\<rparr> =
       Inr (- 1, (plain bs)\<lparr>data := [], nbytes := nbytes (plain bs) + length (data (plain bs))\<rparr>,
            \<lparr>written = [], room = None\<rparr>\<lparr>written := written \<lparr>written = [], room = None\<rparr>
               @ data (plain bs)\<rparr>)"
    by (rule copy_all_packets_plain_extent)
  then show ?thesis by (simp add: copy_then_parse_def plain_def)
qed





end
